theory Spec2Isabelle
  imports Complex_Main "HOL-Library.List_Lexorder" "HOL-Library.Char_ord"
begin

section \<open>JavaScript values\<close>

text \<open>
  A JavaScript number is a finite value, one of the two infinities, or NaN. Finite values
  are exact reals here: rounding to binary64 is not modelled, and zero carries no sign.
  None of the properties below depends on either.
\<close>

datatype jsnum = Fin real | PInf | NInf | NaN

text \<open>The values a cell of the parsed table or an array read can hold.\<close>

datatype jsval = Undefined | Null | Num jsnum

text \<open>\<^verbatim>\<open>ToNumber\<close>: \<^verbatim>\<open>undefined\<close> becomes NaN and \<^verbatim>\<open>null\<close> becomes 0.\<close>

fun to_number :: "jsval \<Rightarrow> jsnum" where
  "to_number Undefined = NaN"
| "to_number Null = Fin 0"
| "to_number (Num x) = x"

text \<open>\<^verbatim>\<open>a - b\<close> on numbers.\<close>

fun num_sub :: "jsnum \<Rightarrow> jsnum \<Rightarrow> jsnum" where
  "num_sub NaN _ = NaN"
| "num_sub _ NaN = NaN"
| "num_sub (Fin a) (Fin b) = Fin (a - b)"
| "num_sub (Fin a) PInf = NInf"
| "num_sub (Fin a) NInf = PInf"
| "num_sub PInf PInf = NaN"
| "num_sub PInf _ = PInf"
| "num_sub NInf NInf = NaN"
| "num_sub NInf _ = NInf"

text \<open>\<^verbatim>\<open>a / b\<close> on numbers: division by zero raises nothing, \<^verbatim>\<open>0 / 0\<close> is NaN.\<close>

fun num_div :: "jsnum \<Rightarrow> jsnum \<Rightarrow> jsnum" where
  "num_div NaN _ = NaN"
| "num_div _ NaN = NaN"
| "num_div (Fin a) (Fin b) =
     (if b \<noteq> 0 then Fin (a / b)
      else if a = 0 then NaN
      else if 0 < a then PInf else NInf)"
| "num_div (Fin a) _ = Fin 0"
| "num_div PInf (Fin b) = (if 0 \<le> b then PInf else NInf)"
| "num_div NInf (Fin b) = (if 0 \<le> b then NInf else PInf)"
| "num_div _ _ = NaN"

text \<open>\<^verbatim>\<open>a > b\<close> on numbers: false as soon as one side is NaN.\<close>

fun num_gt :: "jsnum \<Rightarrow> jsnum \<Rightarrow> bool" where
  "num_gt NaN _ = False"
| "num_gt _ NaN = False"
| "num_gt (Fin a) (Fin b) = (b < a)"
| "num_gt PInf PInf = False"
| "num_gt PInf _ = True"
| "num_gt NInf _ = False"
| "num_gt (Fin a) PInf = False"
| "num_gt (Fin a) NInf = True"

text \<open>\<^verbatim>\<open>a > b\<close> on values: both sides go through \<^verbatim>\<open>ToNumber\<close> first.\<close>

definition js_gt :: "jsval \<Rightarrow> jsval \<Rightarrow> bool" where
  "js_gt a b = num_gt (to_number a) (to_number b)"

text \<open>\<^verbatim>\<open>Math.min\<close> and \<^verbatim>\<open>Math.max\<close> of two numbers: NaN wins.\<close>

fun num_min :: "jsnum \<Rightarrow> jsnum \<Rightarrow> jsnum" where
  "num_min NaN _ = NaN"
| "num_min _ NaN = NaN"
| "num_min a b = (if num_gt a b then b else a)"

fun num_max :: "jsnum \<Rightarrow> jsnum \<Rightarrow> jsnum" where
  "num_max NaN _ = NaN"
| "num_max _ NaN = NaN"
| "num_max a b = (if num_gt b a then b else a)"

text \<open>
  \<^verbatim>\<open>Math.min(...values)\<close> and \<^verbatim>\<open>Math.max(...values)\<close>: every argument is converted
  with \<^verbatim>\<open>ToNumber\<close>; with no argument the results are \<^verbatim>\<open>Infinity\<close> and
  \<^verbatim>\<open>-Infinity\<close>.
\<close>

definition math_min :: "jsval list \<Rightarrow> jsnum" where
  "math_min values = foldl num_min PInf (map to_number values)"

definition math_max :: "jsval list \<Rightarrow> jsnum" where
  "math_max values = foldl num_max NInf (map to_number values)"

text \<open>
  An array read \<^verbatim>\<open>arr[i]\<close>: outside the array the result is \<^verbatim>\<open>undefined\<close>, nothing
  is raised.
\<close>

definition js_get :: "jsval list \<Rightarrow> int \<Rightarrow> jsval" where
  "js_get arr i = (if 0 \<le> i \<and> i < int (length arr) then arr ! nat i else Undefined)"

definition num_get :: "jsnum list \<Rightarrow> int \<Rightarrow> jsval" where
  "num_get arr i = (if 0 \<le> i \<and> i < int (length arr) then Num (arr ! nat i) else Undefined)"

section \<open>data-loader.js: the forward fill of \<^verbatim>\<open>prepareData\<close>\<close>

text \<open>
  \<^verbatim>\<open>
  let lastValue = null;
  for (let i = 0; i < allDates.length; i++) {
      if (pivotedData[symbol][field][i] !== null) {
          lastValue = pivotedData[symbol][field][i];
      } else if (lastValue !== null) {
          pivotedData[symbol][field][i] = lastValue;
      }
  }
  \<close>
  The loop over one series, with the array and \<^verbatim>\<open>lastValue\<close> as its state; \<open>n\<close> is
  \<^verbatim>\<open>allDates.length\<close>. A write happens only where the read gave \<^verbatim>\<open>null\<close>, that is
  inside the array.
\<close>

function ffill_loop :: "nat \<Rightarrow> nat \<Rightarrow> jsval \<Rightarrow> jsval list \<Rightarrow> jsval list" where
  "ffill_loop n i lastValue arr =
     (if i < n then
        (if js_get arr (int i) \<noteq> Null then ffill_loop n (i + 1) (js_get arr (int i)) arr
         else if lastValue \<noteq> Null then ffill_loop n (i + 1) lastValue (arr[i := lastValue])
         else ffill_loop n (i + 1) lastValue arr)
      else arr)"
  by pat_completeness auto
termination
  by (relation "measure (\<lambda>(n, i, lastValue, arr). n - i)") auto

declare ffill_loop.simps [simp del]

definition forward_fill :: "nat \<Rightarrow> jsval list \<Rightarrow> jsval list" where
  "forward_fill n arr = ffill_loop n 0 Null arr"


section \<open>data-loader.js: \<^verbatim>\<open>prepareData\<close>\<close>

text \<open>
  A row of \<^verbatim>\<open>rawData\<close>, as the CSV parser delivers it with \<^verbatim>\<open>dynamicTyping\<close>: the
  date and the symbol are strings, a numeric \<^verbatim>\<open>Open\<close> or \<^verbatim>\<open>Close\<close> field is a number,
  an empty one is \<^verbatim>\<open>null\<close>, and a column the file does not have reads as
  \<^verbatim>\<open>undefined\<close>. A field holding other text would stay a string; the model takes
  tables whose price fields are numeric or empty.
\<close>

record row =
  Date :: string
  Symbol :: string
  Open :: jsval
  Close :: jsval

text \<open>\<^verbatim>\<open>pivotedData[symbol]\<close> and \<^verbatim>\<open>normalizedData[symbol]\<close>.\<close>

record series =
  pOpen :: "jsval list"
  pClose :: "jsval list"

record nseries =
  nOpen :: "jsnum list"
  nClose :: "jsnum list"

datatype error = NoDataLoaded | TypeError | TensorError

text \<open>
  \<^verbatim>\<open>[...new Set(xs)]\<close>: a Set keeps its elements in insertion order and ignores an
  element it already holds.
\<close>

definition set_add :: "'a list \<Rightarrow> 'a \<Rightarrow> 'a list" where
  "set_add acc x = (if x \<in> set acc then acc else acc @ [x])"

definition new_Set :: "'a list \<Rightarrow> 'a list" where
  "new_Set xs = foldl set_add [] xs"

text \<open>
  \<^verbatim>\<open>this.symbols = [...new Set(this.rawData.map(row => row.Symbol))];\<close>
  \<^verbatim>\<open>const allDates = [...new Set(this.rawData.map(row => row.Date))].sort();\<close>
  The default \<^verbatim>\<open>sort\<close> compares strings by their code units, which is the
  lexicographic order on \<open>string\<close>.
\<close>

definition symbols_of :: "row list \<Rightarrow> string list" where
  "symbols_of rawData = new_Set (map Symbol rawData)"

definition allDates_of :: "row list \<Rightarrow> string list" where
  "allDates_of rawData = sort (new_Set (map Date rawData))"

text \<open>
  \<^verbatim>\<open>
  const pivotedData = {};
  this.symbols.forEach(symbol => {
      pivotedData[symbol] = {
          Open: new Array(allDates.length).fill(null),
          Close: new Array(allDates.length).fill(null)
      };
  });
  \<close>
\<close>

definition init_pivot :: "string list \<Rightarrow> nat \<Rightarrow> (string \<rightharpoonup> series)" where
  "init_pivot symbols n =
     foldl (\<lambda>pivotedData symbol.
              pivotedData(symbol \<mapsto> \<lparr>pOpen = replicate n Null, pClose = replicate n Null\<rparr>))
           Map.empty symbols"

text \<open>\<^verbatim>\<open>new Map(allDates.map((date, idx) => [date, idx]))\<close>\<close>

definition dateToIndex_of :: "string list \<Rightarrow> (string \<rightharpoonup> nat)" where
  "dateToIndex_of allDates =
     foldl (\<lambda>m (date, idx). m(date \<mapsto> idx)) Map.empty (zip allDates [0..<length allDates])"

text \<open>
  \<^verbatim>\<open>
  this.rawData.forEach(row => {
      const dateIdx = dateToIndex.get(row.Date);
      if (dateIdx !== undefined && pivotedData[row.Symbol]) {
          pivotedData[row.Symbol].Open[dateIdx] = row.Open;
          pivotedData[row.Symbol].Close[dateIdx] = row.Close;
      }
  });
  \<close>
  Every index of \<^verbatim>\<open>dateToIndex\<close> is below \<^verbatim>\<open>allDates.length\<close>, the length of the
  arrays, so the write is inside the array.
\<close>

definition fill_row :: "(string \<rightharpoonup> nat) \<Rightarrow> (string \<rightharpoonup> series) \<Rightarrow> row \<Rightarrow> (string \<rightharpoonup> series)" where
  "fill_row dateToIndex pivotedData r =
     (case dateToIndex (Date r) of
        None \<Rightarrow> pivotedData
      | Some dateIdx \<Rightarrow>
          (case pivotedData (Symbol r) of
             None \<Rightarrow> pivotedData
           | Some s \<Rightarrow> pivotedData(Symbol r \<mapsto>
               \<lparr>pOpen = (pOpen s)[dateIdx := Open r], pClose = (pClose s)[dateIdx := Close r]\<rparr>)))"

text \<open>
  The forward fill of every symbol and both fields. Reading a field of
  \<^verbatim>\<open>pivotedData[symbol]\<close> for a symbol the object does not hold raises a TypeError.
\<close>

fun fill_symbols :: "nat \<Rightarrow> string list \<Rightarrow> (string \<rightharpoonup> series) \<Rightarrow> error + (string \<rightharpoonup> series)" where
  "fill_symbols n [] pivotedData = Inr pivotedData"
| "fill_symbols n (symbol # rest) pivotedData =
     (case pivotedData symbol of
        None \<Rightarrow> Inl TypeError
      | Some s \<Rightarrow> fill_symbols n rest (pivotedData(symbol \<mapsto>
          \<lparr>pOpen = forward_fill n (pOpen s), pClose = forward_fill n (pClose s)\<rparr>)))"

text \<open>
  \<^verbatim>\<open>
  const values = pivotedData[symbol][field].filter(val => val !== null);
  const min = Math.min(...values);
  const max = Math.max(...values);
  normalizedData[symbol][field] = pivotedData[symbol][field].map(val =>
      val !== null ? (val - min) / (max - min) : 0
  );
  \<close>
\<close>

definition normalize_field :: "jsval list \<Rightarrow> jsnum list" where
  "normalize_field arr =
     (let values = filter (\<lambda>val. val \<noteq> Null) arr;
          mn = math_min values;
          mx = math_max values
      in map (\<lambda>val. if val \<noteq> Null
                      then num_div (num_sub (to_number val) mn) (num_sub mx mn)
                      else Fin 0) arr)"

fun normalize_symbols :: "string list \<Rightarrow> (string \<rightharpoonup> series) \<Rightarrow> (string \<rightharpoonup> nseries) \<Rightarrow> error + (string \<rightharpoonup> nseries)" where
  "normalize_symbols [] pivotedData normalizedData = Inr normalizedData"
| "normalize_symbols (symbol # rest) pivotedData normalizedData =
     (case pivotedData symbol of
        None \<Rightarrow> Inl TypeError
      | Some s \<Rightarrow> normalize_symbols rest pivotedData (normalizedData(symbol \<mapsto>
          \<lparr>nOpen = normalize_field (pOpen s), nClose = normalize_field (pClose s)\<rparr>)))"

definition WINDOW_SIZE :: int where
  "WINDOW_SIZE = 12"

definition PREDICTION_DAYS :: int where
  "PREDICTION_DAYS = 3"

text \<open>
  \<^verbatim>\<open>
  const timeStep = [];
  this.symbols.forEach(symbol => {
      timeStep.push(normalizedData[symbol].Open[j], normalizedData[symbol].Close[j]);
  });
  \<close>
\<close>

fun timeStep :: "(string \<rightharpoonup> nseries) \<Rightarrow> string list \<Rightarrow> int \<Rightarrow> error + jsval list" where
  "timeStep normalizedData [] j = Inr []"
| "timeStep normalizedData (symbol # rest) j =
     (case normalizedData symbol of
        None \<Rightarrow> Inl TypeError
      | Some ns \<Rightarrow>
          (case timeStep normalizedData rest j of
             Inl e \<Rightarrow> Inl e
           | Inr others \<Rightarrow> Inr (num_get (nOpen ns) j # num_get (nClose ns) j # others)))"

text \<open>\<^verbatim>\<open>for (let j = i - WINDOW_SIZE; j < i; j++) { ... sample.push(timeStep); }\<close>\<close>

function sample_loop :: "(string \<rightharpoonup> nseries) \<Rightarrow> string list \<Rightarrow> int \<Rightarrow> int \<Rightarrow> error + jsval list list" where
  "sample_loop normalizedData symbols i j =
     (if j < i then
        (case timeStep normalizedData symbols j of
           Inl e \<Rightarrow> Inl e
         | Inr step \<Rightarrow>
             (case sample_loop normalizedData symbols i (j + 1) of
                Inl e \<Rightarrow> Inl e
              | Inr others \<Rightarrow> Inr (step # others)))
      else Inr [])"
  by pat_completeness auto
termination
  by (relation "measure (\<lambda>(normalizedData, symbols, i, j). nat (i - j))") auto

declare sample_loop.simps [simp del]

text \<open>
  \<^verbatim>\<open>
  for (let k = 0; k < PREDICTION_DAYS; k++) {
      const futureClose = normalizedData[symbol].Close[i + k];
      label.push(futureClose > currentClose ? 1 : 0);
  }
  \<close>
\<close>

function label_days :: "jsnum list \<Rightarrow> jsval \<Rightarrow> int \<Rightarrow> int \<Rightarrow> jsnum list" where
  "label_days closes currentClose i k =
     (if k < PREDICTION_DAYS then
        (let futureClose = num_get closes (i + k)
         in (if js_gt futureClose currentClose then Fin 1 else Fin 0)
            # label_days closes currentClose i (k + 1))
      else [])"
  by pat_completeness auto
termination
  by (relation "measure (\<lambda>(closes, currentClose, i, k). nat (PREDICTION_DAYS - k))") auto

declare label_days.simps [simp del]

text \<open>
  \<^verbatim>\<open>
  const label = [];
  this.symbols.forEach(symbol => {
      const currentClose = normalizedData[symbol].Close[i-1];
      for (let k = 0; k < PREDICTION_DAYS; k++) { ... }
  });
  \<close>
\<close>

fun make_label :: "(string \<rightharpoonup> nseries) \<Rightarrow> string list \<Rightarrow> int \<Rightarrow> error + jsnum list" where
  "make_label normalizedData [] i = Inr []"
| "make_label normalizedData (symbol # rest) i =
     (case normalizedData symbol of
        None \<Rightarrow> Inl TypeError
      | Some ns \<Rightarrow>
          (let currentClose = num_get (nClose ns) (i - 1)
           in case make_label normalizedData rest i of
                Inl e \<Rightarrow> Inl e
              | Inr others \<Rightarrow> Inr (label_days (nClose ns) currentClose i 0 @ others)))"

text \<open>
  \<^verbatim>\<open>
  for (let i = WINDOW_SIZE; i < allDates.length - PREDICTION_DAYS; i++) {
      ...
      samples.push(sample);
      labels.push(label);
      this.dateIndex.push(allDates[i]);
  }
  \<close>
  One triple per iteration: what the iteration pushes onto \<^verbatim>\<open>samples\<close>,
  \<^verbatim>\<open>labels\<close> and \<^verbatim>\<open>dateIndex\<close>. The loop body has no \<^verbatim>\<open>continue\<close> and no
  test of the data.
\<close>

function window_loop :: "(string \<rightharpoonup> nseries) \<Rightarrow> string list \<Rightarrow> string list \<Rightarrow> int
    \<Rightarrow> error + (jsval list list \<times> jsnum list \<times> string) list" where
  "window_loop normalizedData symbols allDates i =
     (if i < int (length allDates) - PREDICTION_DAYS then
        (case sample_loop normalizedData symbols i (i - WINDOW_SIZE) of
           Inl e \<Rightarrow> Inl e
         | Inr sample \<Rightarrow>
             (case make_label normalizedData symbols i of
                Inl e \<Rightarrow> Inl e
              | Inr label \<Rightarrow>
                  (case window_loop normalizedData symbols allDates (i + 1) of
                     Inl e \<Rightarrow> Inl e
                   | Inr others \<Rightarrow> Inr ((sample, label, allDates ! nat i) # others))))
      else Inr [])"
  by pat_completeness auto
termination
  by (relation "measure (\<lambda>(normalizedData, symbols, allDates, i).
                  nat (int (length allDates) - PREDICTION_DAYS - i))") auto

declare window_loop.simps [simp del]

text \<open>
  \<^verbatim>\<open>const splitIndex = Math.floor(samples.length * 0.8);\<close>
  The product is taken in exact arithmetic. The binary64 constant is a little above
  \<open>4/5\<close> and the product is rounded to nearest, which gives the same floor for every
  length an array can have.
\<close>

definition splitIndex_of :: "nat \<Rightarrow> nat" where
  "splitIndex_of len = nat \<lfloor>real len * 0.8\<rfloor>"

text \<open>\<^verbatim>\<open>xs.slice(0, splitIndex)\<close> and \<^verbatim>\<open>xs.slice(splitIndex)\<close>\<close>

definition slice_to :: "'a list \<Rightarrow> nat \<Rightarrow> 'a list" where
  "slice_to xs e = take e xs"

definition slice_from :: "'a list \<Rightarrow> nat \<Rightarrow> 'a list" where
  "slice_from xs b = drop b xs"

text \<open>
  \<^verbatim>\<open>tf.tensor3d(values)\<close> and \<^verbatim>\<open>tf.tensor2d(values)\<close> are calls into TensorFlow.js,
  which is not part of the repository. Called with a nested array and no shape, they
  infer the shape from the array, and they raise for the empty array, whose inferred
  shape has one dimension. The arrays \<^verbatim>\<open>prepareData\<close> builds are rectangular and hold
  numbers only; the model keeps the array as the tensor and raises for the empty one.
\<close>

definition tf_tensor :: "'a list \<Rightarrow> error + 'a list" where
  "tf_tensor values = (if values = [] then Inl TensorError else Inr values)"

text \<open>
  The fields \<^verbatim>\<open>prepareData\<close> leaves on the loader when it returns. When it raises,
  the model gives the error only, not the fields assigned before.
\<close>

record prepared =
  symbols :: "string list"
  dateIndex :: "string list"
  X_train :: "jsval list list list"
  y_train :: "jsnum list list"
  X_test :: "jsval list list list"
  y_test :: "jsnum list list"
  featureNames :: "string list"
  processedData :: "string \<rightharpoonup> nseries"

text \<open>The stages of \<^verbatim>\<open>prepareData\<close>, in the order of the source.\<close>

definition pivotedData_of :: "row list \<Rightarrow> (string \<rightharpoonup> series)" where
  "pivotedData_of rows =
     (let allDates = allDates_of rows
      in foldl (fill_row (dateToIndex_of allDates))
               (init_pivot (symbols_of rows) (length allDates)) rows)"

definition filled_of :: "row list \<Rightarrow> error + (string \<rightharpoonup> series)" where
  "filled_of rows =
     fill_symbols (length (allDates_of rows)) (symbols_of rows) (pivotedData_of rows)"

definition normalizedData_of :: "row list \<Rightarrow> error + (string \<rightharpoonup> nseries)" where
  "normalizedData_of rows =
     (case filled_of rows of
        Inl e \<Rightarrow> Inl e
      | Inr filled \<Rightarrow> normalize_symbols (symbols_of rows) filled Map.empty)"

definition windows_of :: "row list \<Rightarrow> error + (jsval list list \<times> jsnum list \<times> string) list" where
  "windows_of rows =
     (case normalizedData_of rows of
        Inl e \<Rightarrow> Inl e
      | Inr normalizedData \<Rightarrow>
          window_loop normalizedData (symbols_of rows) (allDates_of rows) WINDOW_SIZE)"

text \<open>
  \<^verbatim>\<open>
  if (!this.rawData || this.rawData.length === 0) {
      throw new Error('No data loaded');
  }
  \<close>
  \<open>None\<close> is the \<^verbatim>\<open>null\<close> the constructor leaves in \<^verbatim>\<open>rawData\<close>.
\<close>

definition prepareData :: "row list option \<Rightarrow> error + prepared" where
  "prepareData rawData =
     (case rawData of
        None \<Rightarrow> Inl NoDataLoaded
      | Some rows \<Rightarrow>
          if length rows = 0 then Inl NoDataLoaded
          else
            (case normalizedData_of rows of
               Inl e \<Rightarrow> Inl e
             | Inr normalizedData \<Rightarrow>
                 (case windows_of rows of
                    Inl e \<Rightarrow> Inl e
                  | Inr w \<Rightarrow>
                      (let samples = map fst w;
                           labels = map (fst \<circ> snd) w;
                           splitIndex = splitIndex_of (length samples)
                       in case tf_tensor (slice_to samples splitIndex) of
                            Inl e \<Rightarrow> Inl e
                          | Inr xTrain \<Rightarrow>
                        (case tf_tensor (slice_to labels splitIndex) of
                            Inl e \<Rightarrow> Inl e
                          | Inr yTrain \<Rightarrow>
                        (case tf_tensor (slice_from samples splitIndex) of
                            Inl e \<Rightarrow> Inl e
                          | Inr xTest \<Rightarrow>
                        (case tf_tensor (slice_from labels splitIndex) of
                            Inl e \<Rightarrow> Inl e
                          | Inr yTest \<Rightarrow>
                            Inr \<lparr>symbols = symbols_of rows,
                                 dateIndex = map (snd \<circ> snd) w,
                                 X_train = xTrain,
                                 y_train = yTrain,
                                 X_test = xTest,
                                 y_test = yTest,
                                 featureNames = concat (map (\<lambda>symbol.
                                   [symbol @ ''_Open'', symbol @ ''_Close'']) (symbols_of rows)),
                                 processedData = normalizedData\<rparr>)))))))"

section \<open>The second loader: \<^verbatim>\<open>norm\<close>, \<^verbatim>\<open>parseAndPivot\<close>, \<^verbatim>\<open>createSequences\<close>\<close>

text \<open>\<^verbatim>\<open>a === b\<close> on numbers: NaN equals nothing.\<close>

fun num_eq :: "jsnum \<Rightarrow> jsnum \<Rightarrow> bool" where
  "num_eq NaN _ = False"
| "num_eq _ NaN = False"
| "num_eq a b = (a = b)"

text \<open>
  \<^verbatim>\<open>
  norm(val, min, max) {
    if (max === min) return 0;
    return (val - min) / (max - min);
  }
  \<close>
\<close>

definition norm :: "jsnum \<Rightarrow> jsnum \<Rightarrow> jsnum \<Rightarrow> jsnum" where
  "norm val mn mx = (if num_eq mx mn then Fin 0 else num_div (num_sub val mn) (num_sub mx mn))"

text \<open>
  \<^verbatim>\<open>parseAndPivot\<close> adds the symbol of every data line to \<^verbatim>\<open>symSet\<close> and ends with
  \<^verbatim>\<open>this.symbols = Array.from(symSet).sort();\<close>
  The argument is the symbol column of the data lines, in file order.
\<close>

definition parseAndPivot_symbols :: "string list \<Rightarrow> string list" where
  "parseAndPivot_symbols column = sort (new_Set column)"

text \<open>
  The loop header of \<^verbatim>\<open>createSequences\<close>:
  \<^verbatim>\<open>for (let i = inputLen; i <= this.dates.length - outputLen - 1; i++)\<close>
  as the list of the values \<open>i\<close> takes; \<open>len\<close> is \<^verbatim>\<open>this.dates.length\<close>.
\<close>

function createSequences_anchors :: "int \<Rightarrow> int \<Rightarrow> int \<Rightarrow> int list" where
  "createSequences_anchors len outputLen i =
     (if i \<le> len - outputLen - 1 then i # createSequences_anchors len outputLen (i + 1) else [])"
  by pat_completeness auto
termination
  by (relation "measure (\<lambda>(len, outputLen, i). nat (len - outputLen - i))") auto

declare createSequences_anchors.simps [simp del]

text \<open>
  The pivot of the second loader, \<^verbatim>\<open>date -> symbol -> {Open, Close}\<close>, holds what
  \<^verbatim>\<open>parseFloat\<close> returned, a number or NaN.
\<close>

record quote =
  qOpen :: jsnum
  qClose :: jsnum

text \<open>\<^verbatim>\<open>(this.pivot[date] || {})[sym]?.Close\<close>\<close>

definition close_at :: "(string \<rightharpoonup> (string \<rightharpoonup> quote)) \<Rightarrow> string \<Rightarrow> string \<Rightarrow> jsval" where
  "close_at pivot date symbol =
     (case pivot date of
        None \<Rightarrow> Undefined
      | Some day \<Rightarrow> (case day symbol of None \<Rightarrow> Undefined | Some q \<Rightarrow> Num (qClose q)))"

text \<open>
  \<^verbatim>\<open>this.dates[i]\<close> used as a key of the pivot: outside the array the read gives
  \<^verbatim>\<open>undefined\<close>, which as a key is the string \<^verbatim>\<open>"undefined"\<close>.
\<close>

definition date_key :: "string list \<Rightarrow> int \<Rightarrow> string" where
  "date_key dates i = (if 0 \<le> i \<and> i < int (length dates) then dates ! nat i else ''undefined'')"

text \<open>
  The label part of one iteration of \<^verbatim>\<open>createSequences\<close>:
  \<^verbatim>\<open>
  const baseClose = {};               // Close on currentDate
  this.symbols.forEach(sym => {
    baseClose[sym] = (this.pivot[currentDate] || {})[sym]?.Close;
    if (baseClose[sym] == null) { ok = false; }
  });
  if (!ok) continue;

  const labels = [];
  for (let off = 1; off <= outputLen; off++) {
    const futureDate = this.dates[i + off];
    this.symbols.forEach(sym => {
      const futClose = (this.pivot[futureDate] || {})[sym]?.Close;
      labels.push(futClose > baseClose[sym] ? 1 : 0);
    });
  }
  if (labels.length !== this.symbols.length * outputLen) continue;
  \<close>
  \<open>None\<close> is the \<^verbatim>\<open>continue\<close>: the iteration pushes nothing. \<^verbatim>\<open>x == null\<close> holds for
  \<^verbatim>\<open>null\<close> and \<^verbatim>\<open>undefined\<close>.
\<close>

definition loose_null :: "jsval \<Rightarrow> bool" where
  "loose_null v = (v = Null \<or> v = Undefined)"

function future_labels :: "(string \<rightharpoonup> (string \<rightharpoonup> quote)) \<Rightarrow> string list \<Rightarrow> string list
    \<Rightarrow> string \<Rightarrow> int \<Rightarrow> int \<Rightarrow> int \<Rightarrow> jsnum list" where
  "future_labels pivot dates syms currentDate i outputLen off =
     (if off \<le> outputLen then
        (let futureDate = date_key dates (i + off)
         in map (\<lambda>symbol. if js_gt (close_at pivot futureDate symbol) (close_at pivot currentDate symbol)
                         then Fin 1 else Fin 0) syms
            @ future_labels pivot dates syms currentDate i outputLen (off + 1))
      else [])"
  by pat_completeness auto
termination
  by (relation "measure (\<lambda>(pivot, dates, syms, currentDate, i, outputLen, off).
                  nat (outputLen + 1 - off))") auto

declare future_labels.simps [simp del]

definition createSequences_labels :: "(string \<rightharpoonup> (string \<rightharpoonup> quote)) \<Rightarrow> string list \<Rightarrow> string list
    \<Rightarrow> int \<Rightarrow> int \<Rightarrow> jsnum list option" where
  "createSequences_labels pivot dates syms i outputLen =
     (let currentDate = date_key dates i;
          ok = list_all (\<lambda>symbol. \<not> loose_null (close_at pivot currentDate symbol)) syms
      in if \<not> ok then None
         else (let labels = future_labels pivot dates syms currentDate i outputLen 1
               in if int (length labels) \<noteq> int (length syms) * outputLen then None
                  else Some labels))"

section \<open>gru.js: the per-stock accuracy\<close>

text \<open>\<^verbatim>\<open>a === b\<close> on values.\<close>

fun js_strict_eq :: "jsval \<Rightarrow> jsval \<Rightarrow> bool" where
  "js_strict_eq (Num a) (Num b) = num_eq a b"
| "js_strict_eq Undefined Undefined = True"
| "js_strict_eq Null Null = True"
| "js_strict_eq _ _ = False"

text \<open>
  One entry of the list \<^verbatim>\<open>evaluatePerStock\<close> builds for a symbol. The source names the
  keys \<^verbatim>\<open>true\<close>, \<^verbatim>\<open>pred\<close> and \<^verbatim>\<open>correct\<close>.
\<close>

record prediction =
  actual :: jsval
  predicted :: jsnum
  correct :: bool

text \<open>The variables \<^verbatim>\<open>correct\<close>, \<^verbatim>\<open>total\<close> and \<^verbatim>\<open>preds\<close> of one symbol.\<close>

record tally =
  correct_count :: nat
  total_count :: nat
  preds :: "prediction list"

text \<open>\<^verbatim>\<open>yPredArr[s][tgt] > 0.5 ? 1 : 0\<close>\<close>

definition threshold :: "jsval \<Rightarrow> jsnum" where
  "threshold p = (if js_gt p (Num (Fin 0.5)) then Fin 1 else Fin 0)"

text \<open>
  The body of the inner loop of \<^verbatim>\<open>evaluatePerStock\<close>:
  \<^verbatim>\<open>
  const tgt = idx * horizon + h;
  const trueVal = yTrueArr[s][tgt];
  const predVal = yPredArr[s][tgt] > 0.5 ? 1 : 0;
  if (trueVal === predVal) correct++;
  total++;
  preds.push({ true: trueVal, pred: predVal, correct: trueVal === predVal });
  \<close>
\<close>

definition cell_at :: "jsnum list \<Rightarrow> jsnum list \<Rightarrow> nat \<Rightarrow> nat \<Rightarrow> nat \<Rightarrow> prediction" where
  "cell_at trueRow predRow idx horizon h =
     (let tgt = int (idx * horizon + h);
          trueVal = num_get trueRow tgt;
          predVal = threshold (num_get predRow tgt)
      in \<lparr>actual = trueVal, predicted = predVal, correct = js_strict_eq trueVal (Num predVal)\<rparr>)"

definition eval_cell :: "jsnum list \<Rightarrow> jsnum list \<Rightarrow> nat \<Rightarrow> nat \<Rightarrow> tally \<Rightarrow> nat \<Rightarrow> tally" where
  "eval_cell trueRow predRow idx horizon t h =
     (let c = cell_at trueRow predRow idx horizon h
      in \<lparr>correct_count = (if correct c then correct_count t + 1 else correct_count t),
          total_count = total_count t + 1,
          preds = preds t @ [c]\<rparr>)"

text \<open>
  \<^verbatim>\<open>
  for (let s = 0; s < yTrueArr.length; s++) {
    for (let h = 0; h < horizon; h++) { ... }
  }
  \<close>
  The bound is the length of \<^verbatim>\<open>yTrueArr\<close>; where \<^verbatim>\<open>yPredArr\<close> has no row \<open>s\<close>,
  reading \<^verbatim>\<open>yPredArr[s][tgt]\<close> raises a TypeError.
\<close>

function eval_rows :: "jsnum list list \<Rightarrow> jsnum list list \<Rightarrow> nat \<Rightarrow> nat \<Rightarrow> nat \<Rightarrow> tally \<Rightarrow> error + tally" where
  "eval_rows yTrueArr yPredArr idx horizon s t =
     (if s < length yTrueArr then
        (if 0 < horizon \<and> length yPredArr \<le> s then Inl TypeError
         else eval_rows yTrueArr yPredArr idx horizon (s + 1)
                (foldl (eval_cell (yTrueArr ! s) (yPredArr ! s) idx horizon) t [0..<horizon]))
      else Inr t)"
  by pat_completeness auto
termination
  by (relation "measure (\<lambda>(yTrueArr, yPredArr, idx, horizon, s, t). length yTrueArr - s)") auto

declare eval_rows.simps [simp del]

text \<open>
  \<^verbatim>\<open>
  symbols.forEach((sym, idx) => {
    let correct = 0, total = 0;
    const preds = [];
    ...
    stockAcc[sym] = correct / total;
    stockPred[sym] = preds;
  });
  return { stockAccuracies: stockAcc, stockPredictions: stockPred };
  \<close>
\<close>

record evaluation =
  stockAccuracies :: "string \<rightharpoonup> jsnum"
  stockPredictions :: "string \<rightharpoonup> prediction list"

fun eval_symbols :: "jsnum list list \<Rightarrow> jsnum list list \<Rightarrow> nat \<Rightarrow> (string \<times> nat) list
    \<Rightarrow> evaluation \<Rightarrow> error + evaluation" where
  "eval_symbols yTrueArr yPredArr horizon [] ev = Inr ev"
| "eval_symbols yTrueArr yPredArr horizon ((symbol, idx) # rest) ev =
     (case eval_rows yTrueArr yPredArr idx horizon 0
             \<lparr>correct_count = 0, total_count = 0, preds = []\<rparr> of
        Inl e \<Rightarrow> Inl e
      | Inr t \<Rightarrow> eval_symbols yTrueArr yPredArr horizon rest
          \<lparr>stockAccuracies = (stockAccuracies ev)(symbol \<mapsto>
             num_div (Fin (real (correct_count t))) (Fin (real (total_count t)))),
           stockPredictions = (stockPredictions ev)(symbol \<mapsto> preds t)\<rparr>)"

definition evaluatePerStock :: "jsnum list list \<Rightarrow> jsnum list list \<Rightarrow> string list \<Rightarrow> nat
    \<Rightarrow> error + evaluation" where
  "evaluatePerStock yTrue yPred syms horizon =
     eval_symbols yTrue yPred horizon (zip syms [0..<length syms])
       \<lparr>stockAccuracies = Map.empty, stockPredictions = Map.empty\<rparr>"

text \<open>
  \<^verbatim>\<open>computePerStockAccuracy\<close> of the other \<^verbatim>\<open>gru.js\<close> counts the same way, with the
  rows of \<^verbatim>\<open>predData\<close> as the bound of the outer loop and no list of records:
  \<^verbatim>\<open>
  for (let sample = 0; sample < predData.length; sample++) {
      for (let day = 0; day < predictionDays; day++) {
          const predIdx = stockIdx * predictionDays + day;
          const predicted = predData[sample][predIdx] > 0.5 ? 1 : 0;
          const actual = trueData[sample][predIdx];
          if (predicted === actual) { correct++; }
          total++;
      }
  }
  stockAccuracies[symbol] = correct / total;
  \<close>
\<close>

definition hit_at :: "jsnum list \<Rightarrow> jsnum list \<Rightarrow> nat \<Rightarrow> nat \<Rightarrow> nat \<Rightarrow> bool" where
  "hit_at predRow trueRow stockIdx predictionDays day =
     (let predIdx = int (stockIdx * predictionDays + day);
          predicted = threshold (num_get predRow predIdx);
          actual = num_get trueRow predIdx
      in js_strict_eq (Num predicted) actual)"

definition count_cell :: "jsnum list \<Rightarrow> jsnum list \<Rightarrow> nat \<Rightarrow> nat \<Rightarrow> nat \<times> nat \<Rightarrow> nat \<Rightarrow> nat \<times> nat" where
  "count_cell predRow trueRow stockIdx predictionDays ct day =
     (if hit_at predRow trueRow stockIdx predictionDays day then fst ct + 1 else fst ct,
      snd ct + 1)"

function count_rows :: "jsnum list list \<Rightarrow> jsnum list list \<Rightarrow> nat \<Rightarrow> nat \<Rightarrow> nat \<Rightarrow> nat \<times> nat
    \<Rightarrow> error + nat \<times> nat" where
  "count_rows predData trueData stockIdx predictionDays sample ct =
     (if sample < length predData then
        (if 0 < predictionDays \<and> length trueData \<le> sample then Inl TypeError
         else count_rows predData trueData stockIdx predictionDays (sample + 1)
                (foldl (count_cell (predData ! sample) (trueData ! sample) stockIdx predictionDays)
                       ct [0..<predictionDays]))
      else Inr ct)"
  by pat_completeness auto
termination
  by (relation "measure (\<lambda>(predData, trueData, stockIdx, predictionDays, sample, ct).
                  length predData - sample)") auto

declare count_rows.simps [simp del]

fun count_symbols :: "jsnum list list \<Rightarrow> jsnum list list \<Rightarrow> nat \<Rightarrow> (string \<times> nat) list
    \<Rightarrow> (string \<rightharpoonup> jsnum) \<Rightarrow> error + (string \<rightharpoonup> jsnum)" where
  "count_symbols predData trueData predictionDays [] acc = Inr acc"
| "count_symbols predData trueData predictionDays ((symbol, stockIdx) # rest) acc =
     (case count_rows predData trueData stockIdx predictionDays 0 (0, 0) of
        Inl e \<Rightarrow> Inl e
      | Inr ct \<Rightarrow> count_symbols predData trueData predictionDays rest
          (acc(symbol \<mapsto> num_div (Fin (real (fst ct))) (Fin (real (snd ct))))))"

definition computePerStockAccuracy :: "jsnum list list \<Rightarrow> jsnum list list \<Rightarrow> string list \<Rightarrow> nat
    \<Rightarrow> error + (string \<rightharpoonup> jsnum)" where
  "computePerStockAccuracy predictions y_test_rows syms predictionDays =
     count_symbols predictions y_test_rows predictionDays (zip syms [0..<length syms]) Map.empty"


section \<open>The label vector in the words of the specification\<close>

text \<open>
  The label vector as the specification words it, to compare with \<open>make_label\<close>: for
  each entity in order, the baseline is the close at the anchor position \<open>i\<close> itself and
  the compared closes are those of the three positions after \<open>i\<close>.
\<close>

definition claimed_label :: "(string \<rightharpoonup> nseries) \<Rightarrow> string list \<Rightarrow> int \<Rightarrow> jsnum list" where
  "claimed_label normalizedData syms i =
     concat (map (\<lambda>symbol.
       (case normalizedData symbol of
          None \<Rightarrow> []
        | Some ns \<Rightarrow> map (\<lambda>h. if js_gt (num_get (nClose ns) (i + int h)) (num_get (nClose ns) i)
                                then Fin 1 else Fin 0) [1..<4])) syms)"

section \<open>Example tables\<close>

text \<open>Seventeen trading days, enough for two windows: one for training, one for testing.\<close>

definition example_dates :: "string list" where
  "example_dates =
     [''2024-01-01'', ''2024-01-02'', ''2024-01-03'', ''2024-01-04'', ''2024-01-05'',
      ''2024-01-08'', ''2024-01-09'', ''2024-01-10'', ''2024-01-11'', ''2024-01-12'',
      ''2024-01-15'', ''2024-01-16'', ''2024-01-17'', ''2024-01-18'', ''2024-01-19'',
      ''2024-01-22'', ''2024-01-23'']"

definition example_rows :: "string \<Rightarrow> jsval list \<Rightarrow> jsval list \<Rightarrow> row list" where
  "example_rows symbol opens closes =
     map (\<lambda>(d, p, c). \<lparr>Date = d, Symbol = symbol, Open = p, Close = c\<rparr>)
         (zip example_dates (zip opens closes))"

definition nums :: "real list \<Rightarrow> jsval list" where
  "nums xs = map (\<lambda>x. Num (Fin x)) xs"

text \<open>
  One stock whose closes, once scaled to \<open>[0, 1]\<close>, read \<open>0.2, 0.5, 0.1, 0.9\<close> at the
  positions \<open>11, 12, 13, 14\<close>.
\<close>

definition rows_label :: "row list" where
  "rows_label =
     example_rows ''S''
       (nums [0, 10, 5, 5, 5, 5, 5, 5, 5, 5, 5, 2, 5, 1, 9, 5, 5])
       (nums [0, 10, 5, 5, 5, 5, 5, 5, 5, 5, 5, 2, 5, 1, 9, 5, 5])"

text \<open>The same stock with sixteen days only: one window, and nothing to train on.\<close>

definition rows_short :: "row list" where
  "rows_short = take 16 rows_label"

text \<open>One stock whose first row has an empty \<^verbatim>\<open>Open\<close> field.\<close>

definition rows_hole :: "row list" where
  "rows_hole =
     example_rows ''A''
       (Null # nums [4, 2, 4, 2, 4, 2, 4, 2, 4, 2, 4, 2, 4, 2, 4, 2])
       (nums [3, 1, 3, 1, 3, 1, 3, 1, 3, 1, 3, 1, 3, 1, 3, 1, 3])"

text \<open>One stock whose close never moves.\<close>

definition rows_flat :: "row list" where
  "rows_flat =
     example_rows ''A''
       (nums [2, 4, 2, 4, 2, 4, 2, 4, 2, 4, 2, 4, 2, 4, 2, 4, 2])
       (nums [5, 5, 5, 5, 5, 5, 5, 5, 5, 5, 5, 5, 5, 5, 5, 5, 5])"

text \<open>Two stocks, the rows of \<^verbatim>\<open>MSFT\<close> before those of \<^verbatim>\<open>AAPL\<close>.\<close>

definition rows_two :: "row list" where
  "rows_two =
     example_rows ''MSFT''
       (nums [2, 4, 2, 4, 2, 4, 2, 4, 2, 4, 2, 4, 2, 4, 2, 4, 2])
       (nums [1, 3, 1, 3, 1, 3, 1, 3, 1, 3, 1, 3, 1, 3, 1, 3, 1])
     @ example_rows ''AAPL''
       (nums [6, 8, 6, 8, 6, 8, 6, 8, 6, 8, 6, 8, 6, 8, 6, 8, 6])
       (nums [7, 5, 7, 5, 7, 5, 7, 5, 7, 5, 7, 5, 7, 5, 7, 5, 7])"

section \<open>The column block of an entity\<close>

text \<open>
  The records of the cells of entity \<open>idx\<close>, over the samples from \<open>s0\<close> on and the
  horizon days, in the order of the two loops; and the quotient of the correct ones.
\<close>

definition cells :: "jsnum list list \<Rightarrow> jsnum list list \<Rightarrow> nat \<Rightarrow> nat \<Rightarrow> nat \<Rightarrow> prediction list" where
  "cells yTrueArr yPredArr idx horizon s0 =
     concat (map (\<lambda>s. map (cell_at (yTrueArr ! s) (yPredArr ! s) idx horizon) [0..<horizon])
                 [s0..<length yTrueArr])"

definition accuracy_of :: "prediction list \<Rightarrow> jsnum" where
  "accuracy_of ps = num_div (Fin (real (length (filter correct ps)))) (Fin (real (length ps)))"


section \<open>A list-recursive reading of the forward fill\<close>

text \<open>
  What the loop computes from position \<open>i\<close> on, as a function of the rest of the array
  and of \<^verbatim>\<open>lastValue\<close>; the proofs go through it.
\<close>

fun fill_from :: "jsval \<Rightarrow> jsval list \<Rightarrow> jsval list" where
  "fill_from l [] = []"
| "fill_from l (x # xs) = (if x \<noteq> Null then x # fill_from x xs else l # fill_from l xs)"


section \<open>The forward fill\<close>

lemma ffill_loop_eq:
  "n = length arr \<Longrightarrow> i \<le> n \<Longrightarrow>
   ffill_loop n i l arr = take i arr @ fill_from l (drop i arr)"
proof (induction n i l arr rule: ffill_loop.induct)
  case (1 n i lastValue arr)
  show ?case
  proof (cases "i < n")
    case False
    with 1(4,5) show ?thesis by (simp add: ffill_loop.simps)
  next
    case True
    then have d: "drop i arr = arr ! i # drop (Suc i) arr"
      using 1(4) by (simp add: Cons_nth_drop_Suc)
    have g: "js_get arr (int i) = arr ! i" using True 1(4) by (simp add: js_get_def)
    show ?thesis
    proof (cases "arr ! i \<noteq> Null")
      case a: True
      have "ffill_loop n i lastValue arr = ffill_loop n (i + 1) (arr ! i) arr"
        using True a g by (subst ffill_loop.simps) simp
      also have "\<dots> = take (i + 1) arr @ fill_from (arr ! i) (drop (i + 1) arr)"
        using 1(1)[OF True _ 1(4)] True a g by simp
      finally show ?thesis using d a True 1(4) by (simp add: take_Suc_conv_app_nth)
    next
      case b: False
      show ?thesis
      proof (cases "lastValue \<noteq> Null")
        case c: True
        have "ffill_loop n i lastValue arr = ffill_loop n (i + 1) lastValue (arr[i := lastValue])"
          using True b c g by (subst ffill_loop.simps) simp
        also have "\<dots> = take (i + 1) (arr[i := lastValue]) @ fill_from lastValue (drop (i + 1) (arr[i := lastValue]))"
          using 1(2)[OF True _ c] True b g 1(4) by simp
        finally show ?thesis using d b True 1(4) by (simp add: take_Suc_conv_app_nth)
      next
        case c: False
        have "ffill_loop n i lastValue arr = ffill_loop n (i + 1) lastValue arr"
          using True b c g by (subst ffill_loop.simps) simp
        also have "\<dots> = take (i + 1) arr @ fill_from lastValue (drop (i + 1) arr)"
          using 1(3)[OF True _ _ 1(4)] True b c g by simp
        finally show ?thesis using d b c True 1(4) by (simp add: take_Suc_conv_app_nth)
      qed
    qed
  qed
qed

lemma length_fill_from: "length (fill_from l xs) = length xs"
  by (induction xs arbitrary: l) auto

lemma fill_from_keep: "k < length xs \<Longrightarrow> xs ! k \<noteq> Null \<Longrightarrow> fill_from l xs ! k = xs ! k"
proof (induction xs arbitrary: l k)
  case Nil then show ?case by simp
next
  case (Cons x xs)
  show ?case
  proof (cases k)
    case 0 with Cons.prems show ?thesis by simp
  next
    case (Suc k')
    with Cons.prems have "fill_from l' xs ! k' = xs ! k'" for l'
      using Cons.IH[of k' l'] by simp
    with Suc show ?thesis by simp
  qed
qed

lemma fill_from_lead: "k < length xs \<Longrightarrow> \<forall>j\<le>k. xs ! j = Null \<Longrightarrow> fill_from l xs ! k = l"
proof (induction xs arbitrary: k)
  case Nil then show ?case by simp
next
  case (Cons x xs)
  from Cons.prems(2) have x: "x = Null" by force
  show ?case
  proof (cases k)
    case 0 with x show ?thesis by simp
  next
    case (Suc k')
    have "\<forall>j\<le>k'. xs ! j = Null"
    proof (intro allI impI)
      fix j assume "j \<le> k'"
      then have "Suc j \<le> k" using Suc by simp
      with Cons.prems(2) have "(x # xs) ! Suc j = Null" by blast
      then show "xs ! j = Null" by simp
    qed
    with Cons.IH[of k'] Cons.prems(1) Suc x show ?thesis by simp
  qed
qed

lemma fill_from_hole: 
  "k < length xs \<Longrightarrow> fill_from l xs ! k = Null \<Longrightarrow> j \<le> k \<Longrightarrow> l = Null \<and> xs ! j = Null"
proof (induction xs arbitrary: l k j)
  case Nil then show ?case by simp
next
  case (Cons x xs)
  show ?case
  proof (cases k)
    case 0 with Cons.prems show ?thesis by (auto split: if_splits)
  next
    case (Suc k')
    show ?thesis
    proof (cases "x = Null")
      case True
      with Cons.prems Suc have "fill_from l xs ! k' = Null" "k' < length xs" by auto
      from Cons.IH[OF this(2,1)] True Cons.prems(3) Suc show ?thesis
        by (cases j) auto
    next
      case False
      with Cons.prems Suc have "fill_from x xs ! k' = Null" "k' < length xs" by auto
      from Cons.IH[OF this(2,1), of 0] False show ?thesis by simp
    qed
  qed
qed

lemma fill_from_nearest:
  "k < length xs \<Longrightarrow> j < k \<Longrightarrow> xs ! j \<noteq> Null \<Longrightarrow> \<forall>m. j < m \<and> m \<le> k \<longrightarrow> xs ! m = Null \<Longrightarrow>
   fill_from l xs ! k = xs ! j"
proof (induction xs arbitrary: l k j)
  case Nil then show ?case by simp
next
  case (Cons x xs)
  obtain k' where k: "k = Suc k'" using Cons.prems(2) by (cases k) auto
  show ?case
  proof (cases j)
    case 0
    then have x: "x \<noteq> Null" using Cons.prems(3) by simp
    have "\<forall>m\<le>k'. xs ! m = Null"
    proof (intro allI impI)
      fix m assume "m \<le> k'"
      then have "j < Suc m \<and> Suc m \<le> k" using 0 k by simp
      with Cons.prems(4) have "(x # xs) ! Suc m = Null" by blast
      then show "xs ! m = Null" by simp
    qed
    then have "fill_from x xs ! k' = x"
      using fill_from_lead[of k' xs x] Cons.prems(1) k by simp
    with x k 0 show ?thesis by simp
  next
    case (Suc j')
    have a: "\<forall>m. j' < m \<and> m \<le> k' \<longrightarrow> xs ! m = Null"
    proof (intro allI impI)
      fix m assume "j' < m \<and> m \<le> k'"
      then have "j < Suc m \<and> Suc m \<le> k" using Suc k by simp
      with Cons.prems(4) have "(x # xs) ! Suc m = Null" by blast
      then show "xs ! m = Null" by simp
    qed
    have "fill_from l' xs ! k' = xs ! j'" for l'
      using Cons.IH[of k' j' l'] Cons.prems k Suc a by simp
    then show ?thesis using k Suc by simp
  qed
qed


lemma forward_fill_eq: "forward_fill (length arr) arr = fill_from Null arr"
  using ffill_loop_eq[of "length arr" arr 0 Null] by (simp add: forward_fill_def)

section \<open>Sets, the pivot and the windows\<close>

lemma set_foldl_set_add: "set (foldl set_add acc xs) = set acc \<union> set xs"
  by (induction xs arbitrary: acc) (auto simp: set_add_def)

lemma distinct_foldl_set_add: "distinct acc \<Longrightarrow> distinct (foldl set_add acc xs)"
  by (induction xs arbitrary: acc) (auto simp: set_add_def)

lemma set_new_Set: "set (new_Set xs) = set xs"
  by (simp add: new_Set_def set_foldl_set_add)

lemma distinct_new_Set: "distinct (new_Set xs)"
  by (simp add: new_Set_def distinct_foldl_set_add)

lemma foldl_set_add_in: "x \<in> set acc \<Longrightarrow> foldl set_add acc (x # xs) = foldl set_add acc xs"
  by (simp add: set_add_def)

lemma foldl_set_add_out: "x \<notin> set acc \<Longrightarrow> foldl set_add acc (x # xs) = foldl set_add (acc @ [x]) xs"
  by (simp add: set_add_def)

lemma foldl_set_add_append:
  fixes xs :: "'a list"
  shows "foldl set_add acc xs = acc @ foldl set_add [] (filter (\<lambda>y. y \<notin> set acc) xs)"
proof (induction xs arbitrary: acc rule: length_induct)
  case (1 xs)
  show ?case
  proof (cases xs)
    case Nil
    then show ?thesis by simp
  next
    case (Cons x xs')
    have IH: "foldl set_add a ys = a @ foldl set_add [] (filter (\<lambda>y. y \<notin> set a) ys)"
      if "length ys \<le> length xs'" for ys a :: "'a list"
    proof -
      have "length ys < length xs" using that Cons by simp
      with 1 show ?thesis by blast
    qed
    show ?thesis
    proof (cases "x \<in> set acc")
      case True
      then show ?thesis using IH[of xs' acc] Cons by (simp add: foldl_set_add_in del: foldl_Cons)
    next
      case False
      define ys where "ys = filter (\<lambda>y. y \<notin> set acc) xs'"
      have len: "length ys \<le> length xs'" by (simp add: ys_def)
      have f: "filter (\<lambda>y. y \<notin> set (acc @ [x])) xs' = filter (\<lambda>y. y \<notin> set [x]) ys"
        by (auto simp: ys_def intro: filter_cong)
      have "foldl set_add acc xs = foldl set_add (acc @ [x]) xs'"
        using False Cons by (simp add: foldl_set_add_out del: foldl_Cons)
      also have "\<dots> = (acc @ [x]) @ foldl set_add [] (filter (\<lambda>y. y \<notin> set (acc @ [x])) xs')"
        by (rule IH) simp
      also have "\<dots> = acc @ ([x] @ foldl set_add [] (filter (\<lambda>y. y \<notin> set [x]) ys))"
        by (simp only: f append_assoc)
      also have "[x] @ foldl set_add [] (filter (\<lambda>y. y \<notin> set [x]) ys) = foldl set_add [x] ys"
        using IH[OF len, of "[x]"] by simp
      also have "foldl set_add [x] ys = foldl set_add [] (filter (\<lambda>y. y \<notin> set acc) xs)"
        using False Cons by (simp add: ys_def foldl_set_add_out del: foldl_Cons)
      finally show ?thesis .
    qed
  qed
qed

lemma new_Set_Cons: "new_Set (x # xs) = x # new_Set (filter (\<lambda>y. y \<noteq> x) xs)"
proof -
  have "new_Set (x # xs) = foldl set_add [x] xs"
    using foldl_set_add_out[of x "[]" xs] by (simp add: new_Set_def del: foldl_Cons)
  also have "\<dots> = [x] @ foldl set_add [] (filter (\<lambda>y. y \<notin> set [x]) xs)"
    by (rule foldl_set_add_append)
  finally show ?thesis by (simp add: new_Set_def)
qed

lemma dom_init_pivot_aux:
  "dom (foldl (\<lambda>pivotedData symbol. pivotedData(symbol \<mapsto> v)) m ss) = dom m \<union> set ss"
  by (induction ss arbitrary: m) auto

lemma dom_init_pivot: "dom (init_pivot ss n) = set ss"
  by (simp add: init_pivot_def dom_init_pivot_aux)

lemma dom_fill_row: "dom (fill_row d pd r) = dom pd"
  by (auto simp: fill_row_def split: option.splits)

lemma dom_foldl_fill_row: "dom (foldl (fill_row d) pd rows) = dom pd"
  by (induction rows arbitrary: pd) (simp_all add: dom_fill_row)

lemma dom_pivotedData_of: "dom (pivotedData_of rows) = set (symbols_of rows)"
  by (simp add: pivotedData_of_def Let_def dom_foldl_fill_row dom_init_pivot)

lemma fill_symbols_total:
  "set ss \<subseteq> dom pd \<Longrightarrow> \<exists>pd'. fill_symbols n ss pd = Inr pd' \<and> dom pd' = dom pd"
proof (induction ss arbitrary: pd)
  case Nil
  then show ?case by simp
next
  case (Cons s ss)
  then obtain v where v: "pd s = Some v" by auto
  define pd1 where "pd1 = pd(s \<mapsto> \<lparr>pOpen = forward_fill n (pOpen v), pClose = forward_fill n (pClose v)\<rparr>)"
  have d: "dom pd1 = dom pd" using v by (auto simp: pd1_def)
  with Cons.prems have "set ss \<subseteq> dom pd1" by simp
  from Cons.IH[OF this] obtain pd' where "fill_symbols n ss pd1 = Inr pd'" "dom pd' = dom pd1"
    by blast
  moreover have "fill_symbols n (s # ss) pd = fill_symbols n ss pd1"
    using v by (simp add: pd1_def)
  ultimately show ?case using d by simp
qed

lemma normalize_symbols_total:
  "set ss \<subseteq> dom pd \<Longrightarrow> \<exists>nd'. normalize_symbols ss pd nd = Inr nd' \<and> dom nd' = dom nd \<union> set ss"
proof (induction ss arbitrary: nd)
  case Nil
  then show ?case by simp
next
  case (Cons s ss)
  then obtain v where v: "pd s = Some v" by auto
  define nd1 where "nd1 = nd(s \<mapsto> \<lparr>nOpen = normalize_field (pOpen v), nClose = normalize_field (pClose v)\<rparr>)"
  have d: "dom nd1 = insert s (dom nd)" by (auto simp: nd1_def)
  from Cons.prems have "set ss \<subseteq> dom pd" by simp
  from Cons.IH[OF this, of nd1] obtain nd' where
    "normalize_symbols ss pd nd1 = Inr nd'" "dom nd' = dom nd1 \<union> set ss" by blast
  moreover have "normalize_symbols (s # ss) pd nd = normalize_symbols ss pd nd1"
    using v by (simp add: nd1_def)
  ultimately show ?case using d by auto
qed

lemma filled_of_total: "\<exists>filled. filled_of rows = Inr filled \<and> dom filled = set (symbols_of rows)"
  using fill_symbols_total[of "symbols_of rows" "pivotedData_of rows" "length (allDates_of rows)"]
  by (simp add: filled_of_def dom_pivotedData_of)

lemma normalizedData_of_total:
  "\<exists>nd. normalizedData_of rows = Inr nd \<and> dom nd = set (symbols_of rows)"
proof -
  obtain filled where f: "filled_of rows = Inr filled" "dom filled = set (symbols_of rows)"
    using filled_of_total by blast
  from normalize_symbols_total[of "symbols_of rows" filled Map.empty] f
  show ?thesis by (simp add: normalizedData_of_def)
qed


lemma timeStep_total:
  "set ss \<subseteq> dom nd \<Longrightarrow>
   \<exists>ts. timeStep nd ss j = Inr ts \<and> length ts = 2 * length ss \<and>
        (\<forall>e<length ss. \<forall>ns. nd (ss ! e) = Some ns \<longrightarrow>
           ts ! (2 * e) = num_get (nOpen ns) j \<and> ts ! (2 * e + 1) = num_get (nClose ns) j)"
proof (induction ss)
  case Nil
  then show ?case by simp
next
  case (Cons s ss)
  then obtain v where v: "nd s = Some v" by auto
  from Cons obtain ts where ts: "timeStep nd ss j = Inr ts" "length ts = 2 * length ss"
    "\<forall>e<length ss. \<forall>ns. nd (ss ! e) = Some ns \<longrightarrow>
       ts ! (2 * e) = num_get (nOpen ns) j \<and> ts ! (2 * e + 1) = num_get (nClose ns) j"
    by auto
  let ?r = "num_get (nOpen v) j # num_get (nClose v) j # ts"
  have r: "timeStep nd (s # ss) j = Inr ?r" using v ts(1) by simp
  have "\<forall>e<length (s # ss). \<forall>ns. nd ((s # ss) ! e) = Some ns \<longrightarrow>
          ?r ! (2 * e) = num_get (nOpen ns) j \<and> ?r ! (2 * e + 1) = num_get (nClose ns) j"
  proof (intro allI impI)
    fix e ns assume e: "e < length (s # ss)" and ns: "nd ((s # ss) ! e) = Some ns"
    show "?r ! (2 * e) = num_get (nOpen ns) j \<and> ?r ! (2 * e + 1) = num_get (nClose ns) j"
    proof (cases e)
      case 0
      with ns v show ?thesis by simp
    next
      case (Suc e')
      with e ns ts(3) have "ts ! (2 * e') = num_get (nOpen ns) j \<and> ts ! (2 * e' + 1) = num_get (nClose ns) j"
        by simp
      with Suc show ?thesis by simp
    qed
  qed
  with r ts(2) show ?case by simp
qed

lemma sample_loop_total:
  "set ss \<subseteq> dom nd \<Longrightarrow>
   \<exists>smp. sample_loop nd ss i j = Inr smp \<and> length smp = nat (i - j) \<and>
         (\<forall>t<length smp. timeStep nd ss (j + int t) = Inr (smp ! t))"
proof (induction nd ss i j rule: sample_loop.induct)
  case (1 nd ss i j)
  show ?case
  proof (cases "j < i")
    case False
    then show ?thesis by (simp add: sample_loop.simps)
  next
    case True
    obtain ts where ts: "timeStep nd ss j = Inr ts"
      using timeStep_total[OF 1(2)] by blast
    from 1(1)[OF True ts 1(2)] obtain smp where smp: "sample_loop nd ss i (j + 1) = Inr smp"
      "length smp = nat (i - (j + 1))"
      "\<forall>t<length smp. timeStep nd ss (j + 1 + int t) = Inr (smp ! t)" by blast
    have r: "sample_loop nd ss i j = Inr (ts # smp)"
      using True ts smp(1) by (subst sample_loop.simps) simp
    have "\<forall>t<length (ts # smp). timeStep nd ss (j + int t) = Inr ((ts # smp) ! t)"
    proof (intro allI impI)
      fix t assume t: "t < length (ts # smp)"
      show "timeStep nd ss (j + int t) = Inr ((ts # smp) ! t)"
      proof (cases t)
        case 0
        with ts show ?thesis by simp
      next
        case (Suc t')
        with t smp(3) have "timeStep nd ss (j + 1 + int t') = Inr (smp ! t')" by simp
        moreover have "j + 1 + int t' = j + int t" using Suc by simp
        ultimately show ?thesis using Suc by simp
      qed
    qed
    moreover have "length (ts # smp) = nat (i - j)" using smp(2) True by simp
    ultimately show ?thesis using r by blast
  qed
qed

lemma label_days_eq:
  "label_days closes cc i 0 =
     map (\<lambda>k. if js_gt (num_get closes (i + int k)) cc then Fin 1 else Fin 0) [0..<3]"
proof -
  have u: "[0..<3] = [0, 1, 2]" by (simp add: upt_rec)
  have "label_days closes cc i 3 = []"
    by (subst label_days.simps) (simp add: PREDICTION_DAYS_def)
  then have "label_days closes cc i 2 = [if js_gt (num_get closes (i + 2)) cc then Fin 1 else Fin 0]"
    by (subst label_days.simps) (simp add: PREDICTION_DAYS_def Let_def)
  then have "label_days closes cc i 1 =
      [if js_gt (num_get closes (i + 1)) cc then Fin 1 else Fin 0,
       if js_gt (num_get closes (i + 2)) cc then Fin 1 else Fin 0]"
    by (subst label_days.simps) (simp add: PREDICTION_DAYS_def Let_def)
  then have "label_days closes cc i 0 =
      [if js_gt (num_get closes i) cc then Fin 1 else Fin 0,
       if js_gt (num_get closes (i + 1)) cc then Fin 1 else Fin 0,
       if js_gt (num_get closes (i + 2)) cc then Fin 1 else Fin 0]"
    by (subst label_days.simps) (simp add: PREDICTION_DAYS_def Let_def)
  then show ?thesis by (simp add: u)
qed

lemma make_label_total:
  "set ss \<subseteq> dom nd \<Longrightarrow>
   \<exists>lab. make_label nd ss i = Inr lab \<and> length lab = 3 * length ss \<and>
        (\<forall>e<length ss. \<forall>k<3. \<forall>ns. nd (ss ! e) = Some ns \<longrightarrow>
           lab ! (3 * e + k) =
             (if js_gt (num_get (nClose ns) (i + int k)) (num_get (nClose ns) (i - 1))
              then Fin 1 else Fin 0))"
proof (induction ss)
  case Nil
  then show ?case by simp
next
  case (Cons s ss)
  then obtain v where v: "nd s = Some v" by auto
  from Cons obtain lab where lab: "make_label nd ss i = Inr lab" "length lab = 3 * length ss"
    "\<forall>e<length ss. \<forall>k<3. \<forall>ns. nd (ss ! e) = Some ns \<longrightarrow>
       lab ! (3 * e + k) =
         (if js_gt (num_get (nClose ns) (i + int k)) (num_get (nClose ns) (i - 1))
          then Fin 1 else Fin 0)"
    by auto
  define blk where "blk = label_days (nClose v) (num_get (nClose v) (i - 1)) i 0"
  have blk: "blk = map (\<lambda>k. if js_gt (num_get (nClose v) (i + int k)) (num_get (nClose v) (i - 1))
                            then Fin 1 else Fin 0) [0..<3]"
    unfolding blk_def by (rule label_days_eq)
  have lb: "length blk = 3" by (simp add: blk)
  have r: "make_label nd (s # ss) i = Inr (blk @ lab)"
    using v lab(1) by (simp add: blk_def Let_def)
  have "\<forall>e<length (s # ss). \<forall>k<3. \<forall>ns. nd ((s # ss) ! e) = Some ns \<longrightarrow>
          (blk @ lab) ! (3 * e + k) =
            (if js_gt (num_get (nClose ns) (i + int k)) (num_get (nClose ns) (i - 1))
             then Fin 1 else Fin 0)"
  proof (intro allI impI)
    fix e k ns assume e: "e < length (s # ss)" and k: "k < (3::nat)"
      and ns: "nd ((s # ss) ! e) = Some ns"
    show "(blk @ lab) ! (3 * e + k) =
            (if js_gt (num_get (nClose ns) (i + int k)) (num_get (nClose ns) (i - 1))
             then Fin 1 else Fin 0)"
    proof (cases e)
      case 0
      then have "ns = v" using ns v by simp
      moreover have "(blk @ lab) ! (3 * e + k) = blk ! k" using 0 k lb by (simp add: nth_append)
      moreover have "blk ! k = (if js_gt (num_get (nClose v) (i + int k)) (num_get (nClose v) (i - 1))
             then Fin 1 else Fin 0)" using k by (simp add: blk)
      ultimately show ?thesis by simp
    next
      case (Suc e')
      then have "(blk @ lab) ! (3 * e + k) = lab ! (3 * e' + k)" using lb by (simp add: nth_append)
      moreover have "lab ! (3 * e' + k) =
         (if js_gt (num_get (nClose ns) (i + int k)) (num_get (nClose ns) (i - 1))
          then Fin 1 else Fin 0)" using lab(3) Suc e k ns by simp
      ultimately show ?thesis by simp
    qed
  qed
  with r lab(2) lb show ?case by simp
qed

lemma window_loop_total:
  "set ss \<subseteq> dom nd \<Longrightarrow>
   \<exists>w. window_loop nd ss allDates i = Inr w \<and>
       length w = nat (int (length allDates) - 3 - i) \<and>
       (\<forall>k<length w. sample_loop nd ss (i + int k) (i + int k - 12) = Inr (fst (w ! k)) \<and>
                      make_label nd ss (i + int k) = Inr (fst (snd (w ! k))) \<and>
                      snd (snd (w ! k)) = allDates ! nat (i + int k))"
proof (induction nd ss allDates i rule: window_loop.induct)
  case (1 nd ss allDates i)
  show ?case
  proof (cases "i < int (length allDates) - PREDICTION_DAYS")
    case False
    then show ?thesis by (subst window_loop.simps) (simp add: PREDICTION_DAYS_def)
  next
    case True
    obtain smp where smp: "sample_loop nd ss i (i - WINDOW_SIZE) = Inr smp"
      using sample_loop_total[OF 1(2)] by blast
    obtain lab where lab: "make_label nd ss i = Inr lab"
      using make_label_total[OF 1(2)] by blast
    from 1(1)[OF True smp lab 1(2)] obtain w where w: "window_loop nd ss allDates (i + 1) = Inr w"
      "length w = nat (int (length allDates) - 3 - (i + 1))"
      "\<forall>k<length w. sample_loop nd ss (i + 1 + int k) (i + 1 + int k - 12) = Inr (fst (w ! k)) \<and>
                      make_label nd ss (i + 1 + int k) = Inr (fst (snd (w ! k))) \<and>
                      snd (snd (w ! k)) = allDates ! nat (i + 1 + int k)" by blast
    let ?w = "(smp, lab, allDates ! nat i) # w"
    have r: "window_loop nd ss allDates i = Inr ?w"
      using True smp lab w(1) by (subst window_loop.simps) simp
    have l: "length ?w = nat (int (length allDates) - 3 - i)"
      using w(2) True by (simp add: PREDICTION_DAYS_def)
    have "\<forall>k<length ?w. sample_loop nd ss (i + int k) (i + int k - 12) = Inr (fst (?w ! k)) \<and>
                      make_label nd ss (i + int k) = Inr (fst (snd (?w ! k))) \<and>
                      snd (snd (?w ! k)) = allDates ! nat (i + int k)"
    proof (intro allI impI)
      fix k assume k: "k < length ?w"
      show "sample_loop nd ss (i + int k) (i + int k - 12) = Inr (fst (?w ! k)) \<and>
                      make_label nd ss (i + int k) = Inr (fst (snd (?w ! k))) \<and>
                      snd (snd (?w ! k)) = allDates ! nat (i + int k)"
      proof (cases k)
        case 0
        with smp lab show ?thesis by (simp add: WINDOW_SIZE_def)
      next
        case (Suc k')
        have e: "i + 1 + int k' = i + int k" using Suc by simp
        from Suc k w(3) have "sample_loop nd ss (i + 1 + int k') (i + 1 + int k' - 12) = Inr (fst (w ! k')) \<and>
                      make_label nd ss (i + 1 + int k') = Inr (fst (snd (w ! k'))) \<and>
                      snd (snd (w ! k')) = allDates ! nat (i + 1 + int k')" by simp
        then show ?thesis unfolding e using Suc by simp
      qed
    qed
    with r l show ?thesis by blast
  qed
qed


lemma init_pivot_lookup_aux:
  "foldl (\<lambda>pivotedData symbol. pivotedData(symbol \<mapsto> v)) m ss s =
     (if s \<in> set ss then Some v else m s)"
  by (induction ss arbitrary: m) auto

lemma init_pivot_lookup:
  "init_pivot ss n s =
     (if s \<in> set ss then Some \<lparr>pOpen = replicate n Null, pClose = replicate n Null\<rparr> else None)"
  by (simp add: init_pivot_def init_pivot_lookup_aux)

lemma fill_row_lengths:
  "\<forall>s v. pd s = Some v \<longrightarrow> length (pOpen v) = n \<and> length (pClose v) = n \<Longrightarrow>
   \<forall>s v. fill_row d pd r s = Some v \<longrightarrow> length (pOpen v) = n \<and> length (pClose v) = n"
  by (auto simp: fill_row_def split: option.splits if_splits)

lemma foldl_fill_row_lengths:
  "\<forall>s v. pd s = Some v \<longrightarrow> length (pOpen v) = n \<and> length (pClose v) = n \<Longrightarrow>
   \<forall>s v. foldl (fill_row d) pd rows s = Some v \<longrightarrow> length (pOpen v) = n \<and> length (pClose v) = n"
proof (induction rows arbitrary: pd)
  case Nil
  then show ?case by simp
next
  case (Cons r rows)
  from fill_row_lengths[OF Cons.prems, of d r] have
    "\<forall>s v. fill_row d pd r s = Some v \<longrightarrow> length (pOpen v) = n \<and> length (pClose v) = n" .
  from Cons.IH[OF this] show ?case by simp
qed

lemma pivotedData_of_lengths:
  "pivotedData_of rows s = Some v \<Longrightarrow>
   length (pOpen v) = length (allDates_of rows) \<and> length (pClose v) = length (allDates_of rows)"
proof -
  let ?n = "length (allDates_of rows)"
  have "\<forall>s v. init_pivot (symbols_of rows) ?n s = Some v \<longrightarrow>
          length (pOpen v) = ?n \<and> length (pClose v) = ?n"
    by (auto simp: init_pivot_lookup split: if_splits)
  from foldl_fill_row_lengths[OF this, of "dateToIndex_of (allDates_of rows)" rows]
  show "pivotedData_of rows s = Some v \<Longrightarrow> ?thesis"
    by (simp add: pivotedData_of_def Let_def)
qed

lemma fill_symbols_lookup:
  "distinct ss \<Longrightarrow> fill_symbols n ss pd = Inr pd' \<Longrightarrow>
   (\<forall>s\<in>set ss. \<exists>v. pd s = Some v \<and>
       pd' s = Some \<lparr>pOpen = forward_fill n (pOpen v), pClose = forward_fill n (pClose v)\<rparr>) \<and>
   (\<forall>s. s \<notin> set ss \<longrightarrow> pd' s = pd s)"
proof (induction ss arbitrary: pd)
  case Nil
  then show ?case by simp
next
  case (Cons a ss)
  from Cons.prems(2) obtain v where v: "pd a = Some v" by (auto split: option.splits)
  define pd1 where "pd1 = pd(a \<mapsto> \<lparr>pOpen = forward_fill n (pOpen v), pClose = forward_fill n (pClose v)\<rparr>)"
  from Cons.prems(2) v have f: "fill_symbols n ss pd1 = Inr pd'" by (simp add: pd1_def)
  from Cons.prems(1) have d: "distinct ss" and na: "a \<notin> set ss" by simp_all
  from Cons.IH[OF d f] have ih:
    "\<forall>s\<in>set ss. \<exists>v. pd1 s = Some v \<and>
       pd' s = Some \<lparr>pOpen = forward_fill n (pOpen v), pClose = forward_fill n (pClose v)\<rparr>"
    "\<forall>s. s \<notin> set ss \<longrightarrow> pd' s = pd1 s" by simp_all
  have here: "\<exists>v. pd a = Some v \<and>
       pd' a = Some \<lparr>pOpen = forward_fill n (pOpen v), pClose = forward_fill n (pClose v)\<rparr>"
    using ih(2) na v by (simp add: pd1_def)
  have rest: "\<forall>s\<in>set ss. \<exists>v. pd s = Some v \<and>
       pd' s = Some \<lparr>pOpen = forward_fill n (pOpen v), pClose = forward_fill n (pClose v)\<rparr>"
  proof
    fix s assume s: "s \<in> set ss"
    with na have "s \<noteq> a" by auto
    then have e: "pd1 s = pd s" by (simp add: pd1_def)
    from ih(1) s obtain w where "pd1 s = Some w"
       "pd' s = Some \<lparr>pOpen = forward_fill n (pOpen w), pClose = forward_fill n (pClose w)\<rparr>"
      by blast
    then show "\<exists>v. pd s = Some v \<and>
       pd' s = Some \<lparr>pOpen = forward_fill n (pOpen v), pClose = forward_fill n (pClose v)\<rparr>"
      unfolding e by blast
  qed
  have others: "\<forall>s. s \<notin> set (a # ss) \<longrightarrow> pd' s = pd s"
    using ih(2) by (simp add: pd1_def)
  from here rest others show ?case by simp
qed

lemma filled_of_lookup:
  assumes "symbol \<in> set (symbols_of rows)"
  shows "\<exists>s filled. pivotedData_of rows symbol = Some s \<and>
     length (pOpen s) = length (allDates_of rows) \<and>
     length (pClose s) = length (allDates_of rows) \<and>
     filled_of rows = Inr filled \<and>
     filled symbol = Some \<lparr>pOpen = forward_fill (length (allDates_of rows)) (pOpen s),
                             pClose = forward_fill (length (allDates_of rows)) (pClose s)\<rparr>"
proof -
  obtain filled where f: "filled_of rows = Inr filled" using filled_of_total[of rows] by blast
  have d: "distinct (symbols_of rows)" by (simp add: symbols_of_def distinct_new_Set)
  from fill_symbols_lookup[OF d f[unfolded filled_of_def]] assms
  obtain s where s: "pivotedData_of rows symbol = Some s"
    "filled symbol = Some \<lparr>pOpen = forward_fill (length (allDates_of rows)) (pOpen s),
                             pClose = forward_fill (length (allDates_of rows)) (pClose s)\<rparr>"
    by blast
  from pivotedData_of_lengths[OF s(1)] s f show ?thesis by blast
qed


text \<open>
  C6. After the forward fill of a series, a position that held a value keeps it; a hole
  with an earlier value holds exactly the value of the nearest earlier position that was
  not a hole; the holes before the first value stay holes; and so a hole of the result
  has only holes before it, in the input and in the result. \<^verbatim>\<open>prepareData\<close> fills the
  open and the close series of every symbol this way, each of them as long as the date
  axis.
\<close>

theorem forward_fill_nearest_preceding:
  "length (forward_fill (length arr) arr) = length arr \<and>
   (k < length arr \<longrightarrow> arr ! k \<noteq> Null \<longrightarrow> forward_fill (length arr) arr ! k = arr ! k) \<and>
   (k < length arr \<longrightarrow> j < k \<longrightarrow> arr ! j \<noteq> Null \<longrightarrow> (\<forall>m. j < m \<and> m \<le> k \<longrightarrow> arr ! m = Null) \<longrightarrow>
      forward_fill (length arr) arr ! k = arr ! j) \<and>
   (k < length arr \<longrightarrow> (\<forall>m\<le>k. arr ! m = Null) \<longrightarrow> forward_fill (length arr) arr ! k = Null) \<and>
   (k < length arr \<longrightarrow> forward_fill (length arr) arr ! k = Null \<longrightarrow>
      (\<forall>m\<le>k. arr ! m = Null \<and> forward_fill (length arr) arr ! m = Null)) \<and>
   (symbol \<in> set (symbols_of rows) \<longrightarrow>
      (\<exists>s filled.
         pivotedData_of rows symbol = Some s \<and>
         length (pOpen s) = length (allDates_of rows) \<and>
         length (pClose s) = length (allDates_of rows) \<and>
         filled_of rows = Inr filled \<and>
         filled symbol = Some \<lparr>pOpen = forward_fill (length (allDates_of rows)) (pOpen s),
                                 pClose = forward_fill (length (allDates_of rows)) (pClose s)\<rparr>))"
proof (intro conjI impI)
  show "length (forward_fill (length arr) arr) = length arr"
    by (simp add: forward_fill_eq length_fill_from)
next
  assume "k < length arr" "arr ! k \<noteq> Null"
  then show "forward_fill (length arr) arr ! k = arr ! k"
    by (simp add: forward_fill_eq fill_from_keep)
next
  assume "k < length arr" "j < k" "arr ! j \<noteq> Null" "\<forall>m. j < m \<and> m \<le> k \<longrightarrow> arr ! m = Null"
  then show "forward_fill (length arr) arr ! k = arr ! j"
    unfolding forward_fill_eq by (rule fill_from_nearest)
next
  assume "k < length arr" "\<forall>m\<le>k. arr ! m = Null"
  then show "forward_fill (length arr) arr ! k = Null"
    unfolding forward_fill_eq by (rule fill_from_lead)
next
  assume k: "k < length arr" and n: "forward_fill (length arr) arr ! k = Null"
  show "\<forall>m\<le>k. arr ! m = Null \<and> forward_fill (length arr) arr ! m = Null"
  proof (intro allI impI)
    fix m assume m: "m \<le> k"
    have a: "arr ! i = Null" if "i \<le> k" for i
      using fill_from_hole[of k arr Null i] k n that unfolding forward_fill_eq by simp
    have "\<forall>i\<le>m. arr ! i = Null" using a m by simp
    then have "fill_from Null arr ! m = Null"
      using fill_from_lead[of m arr Null] k m by simp
    with a[OF m] show "arr ! m = Null \<and> forward_fill (length arr) arr ! m = Null"
      by (simp add: forward_fill_eq)
  qed
next
  assume "symbol \<in> set (symbols_of rows)"
  then show "\<exists>s filled.
         pivotedData_of rows symbol = Some s \<and>
         length (pOpen s) = length (allDates_of rows) \<and>
         length (pClose s) = length (allDates_of rows) \<and>
         filled_of rows = Inr filled \<and>
         filled symbol = Some \<lparr>pOpen = forward_fill (length (allDates_of rows)) (pOpen s),
                                 pClose = forward_fill (length (allDates_of rows)) (pClose s)\<rparr>"
    by (rule filled_of_lookup)
qed

theorem forward_fill_nearest_preceding_witness:
  "forward_fill 5 [Null, Num (Fin 7), Null, Null, Num (Fin 9)] ! 3 = Num (Fin 7) \<and>
   forward_fill 5 [Null, Num (Fin 7), Null, Null, Num (Fin 9)] ! 0 = Null \<and>
   forward_fill 5 [Null, Num (Fin 7), Null, Null, Num (Fin 9)] ! 4 = Num (Fin 9) \<and>
   (\<exists>s filled.
      pivotedData_of rows_hole ''A'' = Some s \<and> length (pOpen s) = 17 \<and> pOpen s ! 0 = Null \<and>
      filled_of rows_hole = Inr filled \<and>
      filled ''A'' = Some \<lparr>pOpen = forward_fill 17 (pOpen s), pClose = forward_fill 17 (pClose s)\<rparr>)"
proof -
  let ?arr = "[Null, Num (Fin 7), Null, Null, Num (Fin 9)]"
  have len: "length ?arr = 5" by simp
  have gap: "\<forall>m. (1::nat) < m \<and> m \<le> 3 \<longrightarrow> ?arr ! m = Null"
  proof (intro allI impI)
    fix m :: nat assume "1 < m \<and> m \<le> 3"
    then have "m = 2 \<or> m = 3" by arith
    then show "?arr ! m = Null" by auto
  qed
  have a: "forward_fill 5 ?arr ! 3 = Num (Fin 7)"
    using forward_fill_nearest_preceding[of ?arr 3 1, unfolded len] gap by simp
  have b: "forward_fill 5 ?arr ! 0 = Null"
    using forward_fill_nearest_preceding[of ?arr 0 0, unfolded len] by simp
  have c: "forward_fill 5 ?arr ! 4 = Num (Fin 9)"
    using forward_fill_nearest_preceding[of ?arr 4 0, unfolded len] by simp
  have mem: "''A'' \<in> set (symbols_of rows_hole)" by code_simp
  have D: "length (allDates_of rows_hole) = 17" by code_simp
  have P: "map_option (\<lambda>s. pOpen s ! 0) (pivotedData_of rows_hole ''A'') = Some Null" by code_simp
  note t = forward_fill_nearest_preceding[of "[]" 0 0 "''A''" rows_hole]
  from t mem obtain s filled where s: "pivotedData_of rows_hole ''A'' = Some s"
    "length (pOpen s) = length (allDates_of rows_hole)"
    "filled_of rows_hole = Inr filled"
    "filled ''A'' = Some \<lparr>pOpen = forward_fill (length (allDates_of rows_hole)) (pOpen s),
                            pClose = forward_fill (length (allDates_of rows_hole)) (pClose s)\<rparr>"
    by blast
  from P s(1) have h: "pOpen s ! 0 = Null" by simp
  from s h have "\<exists>s filled.
      pivotedData_of rows_hole ''A'' = Some s \<and> length (pOpen s) = 17 \<and> pOpen s ! 0 = Null \<and>
      filled_of rows_hole = Inr filled \<and>
      filled ''A'' = Some \<lparr>pOpen = forward_fill 17 (pOpen s), pClose = forward_fill 17 (pClose s)\<rparr>"
    unfolding D by blast
  with a b c show ?thesis by simp
qed

section \<open>The per-stock accuracy\<close>

lemma foldl_eval_cell:
  "foldl (eval_cell tr pr idx H) t hs =
     \<lparr>correct_count = correct_count t + length (filter correct (map (cell_at tr pr idx H) hs)),
      total_count = total_count t + length hs,
      preds = preds t @ map (cell_at tr pr idx H) hs\<rparr>"
  by (induction hs arbitrary: t) (simp_all add: eval_cell_def Let_def)

lemma cells_step:
  "s < length yT \<Longrightarrow>
   cells yT yP idx H s = map (cell_at (yT ! s) (yP ! s) idx H) [0..<H] @ cells yT yP idx H (s + 1)"
  by (simp add: cells_def upt_conv_Cons)

lemma cells_end: "length yT \<le> s \<Longrightarrow> cells yT yP idx H s = []"
  by (simp add: cells_def)

lemma eval_rows_eq:
  "length yT \<le> length yP \<or> H = 0 \<Longrightarrow>
   eval_rows yT yP idx H s t =
     Inr \<lparr>correct_count = correct_count t + length (filter correct (cells yT yP idx H s)),
          total_count = total_count t + length (cells yT yP idx H s),
          preds = preds t @ cells yT yP idx H s\<rparr>"
proof (induction yT yP idx H s t rule: eval_rows.induct)
  case (1 yT yP idx H s t)
  show ?case
  proof (cases "s < length yT")
    case False
    then show ?thesis by (subst eval_rows.simps) (simp add: cells_end)
  next
    case True
    have ok: "\<not> (0 < H \<and> length yP \<le> s)" using True 1(2) by auto
    define t1 where "t1 = foldl (eval_cell (yT ! s) (yP ! s) idx H) t [0..<H]"
    have "eval_rows yT yP idx H s t = eval_rows yT yP idx H (s + 1) t1"
      using True ok by (subst eval_rows.simps) (auto simp: t1_def)
    also have "\<dots> = Inr \<lparr>correct_count = correct_count t1 + length (filter correct (cells yT yP idx H (s + 1))),
          total_count = total_count t1 + length (cells yT yP idx H (s + 1)),
          preds = preds t1 @ cells yT yP idx H (s + 1)\<rparr>"
      using 1(1)[OF True ok 1(2)] by (simp add: t1_def)
    finally show ?thesis
      by (simp add: t1_def foldl_eval_cell cells_step[OF True])
  qed
qed

lemma length_cells: "length (cells yT yP idx H 0) = length yT * H"
proof -
  have "length (cells yT yP idx H s) = (length yT - s) * H" for s
  proof (induction "length yT - s" arbitrary: s)
    case 0
    then show ?case by (simp add: cells_end)
  next
    case (Suc n)
    then have s: "s < length yT" by simp
    from Suc(1)[of "s + 1"] Suc(2) have "length (cells yT yP idx H (s + 1)) = (length yT - (s + 1)) * H"
      by simp
    then show ?case using s Suc(2) by (simp add: cells_step[OF s] algebra_simps flip: Suc_diff_Suc)
  qed
  from this[of 0] show ?thesis by simp
qed

lemma eval_symbols_lookup:
  "length yT \<le> length yP \<or> H = 0 \<Longrightarrow> distinct (map fst ps) \<Longrightarrow>
   \<exists>ev'. eval_symbols yT yP H ps ev = Inr ev' \<and>
     (\<forall>p\<in>set ps. stockAccuracies ev' (fst p) = Some (accuracy_of (cells yT yP (snd p) H 0)) \<and>
                  stockPredictions ev' (fst p) = Some (cells yT yP (snd p) H 0)) \<and>
     (\<forall>k. k \<notin> fst ` set ps \<longrightarrow> stockAccuracies ev' k = stockAccuracies ev k \<and>
                                 stockPredictions ev' k = stockPredictions ev k)"
proof (induction ps arbitrary: ev)
  case Nil
  then show ?case by simp
next
  case (Cons p ps)
  obtain symbol idx where p: "p = (symbol, idx)" by (cases p)
  define t where "t = \<lparr>correct_count = length (filter correct (cells yT yP idx H 0)),
          total_count = length (cells yT yP idx H 0),
          preds = cells yT yP idx H 0\<rparr>"
  have rows: "eval_rows yT yP idx H 0 \<lparr>correct_count = 0, total_count = 0, preds = []\<rparr> = Inr t"
    using eval_rows_eq[OF Cons.prems(1), of idx 0 "\<lparr>correct_count = 0, total_count = 0, preds = []\<rparr>"]
    by (simp add: t_def)
  define ev1 where "ev1 = \<lparr>stockAccuracies = (stockAccuracies ev)(symbol \<mapsto>
             num_div (Fin (real (correct_count t))) (Fin (real (total_count t)))),
           stockPredictions = (stockPredictions ev)(symbol \<mapsto> preds t)\<rparr>"
  have step: "eval_symbols yT yP H (p # ps) ev = eval_symbols yT yP H ps ev1"
    using rows by (simp add: p ev1_def)
  from Cons.prems(2) have d: "distinct (map fst ps)" and notin: "symbol \<notin> fst ` set ps"
    by (simp_all add: p)
  from Cons.IH[OF Cons.prems(1) d, of ev1] obtain ev' where ev':
    "eval_symbols yT yP H ps ev1 = Inr ev'"
    "\<forall>p\<in>set ps. stockAccuracies ev' (fst p) = Some (accuracy_of (cells yT yP (snd p) H 0)) \<and>
                  stockPredictions ev' (fst p) = Some (cells yT yP (snd p) H 0)"
    "\<forall>k. k \<notin> fst ` set ps \<longrightarrow> stockAccuracies ev' k = stockAccuracies ev1 k \<and>
                                 stockPredictions ev' k = stockPredictions ev1 k"
    by blast
  have here: "stockAccuracies ev' symbol = Some (accuracy_of (cells yT yP idx H 0)) \<and>
              stockPredictions ev' symbol = Some (cells yT yP idx H 0)"
    using ev'(3) notin by (simp add: ev1_def t_def accuracy_of_def)
  have others: "\<forall>k. k \<notin> fst ` set (p # ps) \<longrightarrow> stockAccuracies ev' k = stockAccuracies ev k \<and>
                                 stockPredictions ev' k = stockPredictions ev k"
    using ev'(3) by (simp add: p ev1_def)
  from step ev'(1) ev'(2) here others show ?case by (simp add: p)
qed

lemma evaluatePerStock_lookup:
  assumes "length yT \<le> length yP \<or> H = 0" "distinct syms" "idx < length syms"
  shows "\<exists>ev. evaluatePerStock yT yP syms H = Inr ev \<and>
     stockAccuracies ev (syms ! idx) = Some (accuracy_of (cells yT yP idx H 0)) \<and>
     stockPredictions ev (syms ! idx) = Some (cells yT yP idx H 0)"
proof -
  let ?ps = "zip syms [0..<length syms]"
  have d: "distinct (map fst ?ps)" using assms(2) by simp
  have m: "(syms ! idx, idx) \<in> set ?ps"
    using assms(3) by (auto simp: set_zip)
  from eval_symbols_lookup[OF assms(1) d, of "\<lparr>stockAccuracies = Map.empty, stockPredictions = Map.empty\<rparr>"]
  obtain ev where ev: "eval_symbols yT yP H ?ps \<lparr>stockAccuracies = Map.empty, stockPredictions = Map.empty\<rparr> = Inr ev"
    "\<forall>p\<in>set ?ps. stockAccuracies ev (fst p) = Some (accuracy_of (cells yT yP (snd p) H 0)) \<and>
                  stockPredictions ev (fst p) = Some (cells yT yP (snd p) H 0)" by blast
  from ev(2) m have "stockAccuracies ev (syms ! idx) = Some (accuracy_of (cells yT yP idx H 0)) \<and>
     stockPredictions ev (syms ! idx) = Some (cells yT yP idx H 0)" by force
  with ev(1) show ?thesis by (simp add: evaluatePerStock_def)
qed


lemma nth_cells:
  "s < length yT \<Longrightarrow> h < H \<Longrightarrow>
   cells yT yP idx H 0 ! (s * H + h) = cell_at (yT ! s) (yP ! s) idx H h"
proof -
  have g: "s0 + s < length yT \<Longrightarrow>
      cells yT yP idx H s0 ! (s * H + h) = cell_at (yT ! (s0 + s)) (yP ! (s0 + s)) idx H h"
    if "h < H" for s0 s
    using that
  proof (induction s arbitrary: s0)
    case 0
    then have "s0 < length yT" by simp
    from cells_step[OF this] 0 show ?case by (simp add: nth_append)
  next
    case (Suc s)
    then have s0: "s0 < length yT" by simp
    from Suc have "cells yT yP idx H (s0 + 1) ! (s * H + h) =
        cell_at (yT ! (s0 + 1 + s)) (yP ! (s0 + 1 + s)) idx H h" by simp
    then show ?case by (simp add: cells_step[OF s0] nth_append)
  qed
  assume "s < length yT" "h < H"
  with g[of 0 s] show ?thesis by simp
qed

lemma num_eq_sym: "num_eq a b = num_eq b a"
  by (cases a; cases b) auto

lemma js_strict_eq_sym: "js_strict_eq a b = js_strict_eq b a"
  by (cases a; cases b) (auto simp: num_eq_sym)

lemma hit_at_correct: "hit_at pr tr idx H h = correct (cell_at tr pr idx H h)"
  by (simp add: hit_at_def cell_at_def Let_def js_strict_eq_sym)

lemma foldl_count_cell:
  "foldl (count_cell pr tr idx H) ct hs =
     (fst ct + length (filter correct (map (cell_at tr pr idx H) hs)), snd ct + length hs)"
  by (induction hs arbitrary: ct) (simp_all add: count_cell_def hit_at_correct)

lemma count_rows_eq:
  "length pD = length tD \<Longrightarrow>
   count_rows pD tD idx H s ct =
     Inr (fst ct + length (filter correct (cells tD pD idx H s)),
          snd ct + length (cells tD pD idx H s))"
proof (induction pD tD idx H s ct rule: count_rows.induct)
  case (1 pD tD idx H s ct)
  show ?case
  proof (cases "s < length pD")
    case False
    then show ?thesis using 1(2) by (subst count_rows.simps) (simp add: cells_end)
  next
    case True
    then have s: "s < length tD" using 1(2) by simp
    have ok: "\<not> (0 < H \<and> length tD \<le> s)" using s by auto
    define c1 where "c1 = foldl (count_cell (pD ! s) (tD ! s) idx H) ct [0..<H]"
    have "count_rows pD tD idx H s ct = count_rows pD tD idx H (s + 1) c1"
      using True ok by (subst count_rows.simps) (auto simp: c1_def)
    also have "\<dots> = Inr (fst c1 + length (filter correct (cells tD pD idx H (s + 1))),
          snd c1 + length (cells tD pD idx H (s + 1)))"
      using 1(1)[OF True ok 1(2)] by (simp add: c1_def)
    finally show ?thesis
      by (simp add: c1_def foldl_count_cell cells_step[OF s])
  qed
qed

lemma count_symbols_lookup:
  "length pD = length tD \<Longrightarrow> distinct (map fst ps) \<Longrightarrow>
   \<exists>acc'. count_symbols pD tD H ps acc = Inr acc' \<and>
     (\<forall>p\<in>set ps. acc' (fst p) = Some (accuracy_of (cells tD pD (snd p) H 0))) \<and>
     (\<forall>k. k \<notin> fst ` set ps \<longrightarrow> acc' k = acc k)"
proof (induction ps arbitrary: acc)
  case Nil
  then show ?case by simp
next
  case (Cons p ps)
  obtain symbol idx where p: "p = (symbol, idx)" by (cases p)
  define acc1 where "acc1 = acc(symbol \<mapsto> accuracy_of (cells tD pD idx H 0))"
  have step: "count_symbols pD tD H (p # ps) acc = count_symbols pD tD H ps acc1"
    using count_rows_eq[OF Cons.prems(1), of idx H 0 "(0, 0)"]
    by (simp add: p acc1_def accuracy_of_def)
  from Cons.prems(2) have d: "distinct (map fst ps)" and notin: "symbol \<notin> fst ` set ps"
    by (simp_all add: p)
  from Cons.IH[OF Cons.prems(1) d, of acc1] obtain acc' where acc':
    "count_symbols pD tD H ps acc1 = Inr acc'"
    "\<forall>p\<in>set ps. acc' (fst p) = Some (accuracy_of (cells tD pD (snd p) H 0))"
    "\<forall>k. k \<notin> fst ` set ps \<longrightarrow> acc' k = acc1 k"
    by blast
  have here: "acc' symbol = Some (accuracy_of (cells tD pD idx H 0))"
    using acc'(3) notin by (simp add: acc1_def)
  have others: "\<forall>k. k \<notin> fst ` set (p # ps) \<longrightarrow> acc' k = acc k"
    using acc'(3) by (simp add: p acc1_def)
  from step acc'(1) acc'(2) here others show ?case by (simp add: p)
qed

lemma computePerStockAccuracy_lookup:
  assumes "length pD = length tD" "distinct syms" "idx < length syms"
  shows "\<exists>acc. computePerStockAccuracy pD tD syms H = Inr acc \<and>
     acc (syms ! idx) = Some (accuracy_of (cells tD pD idx H 0))"
proof -
  let ?ps = "zip syms [0..<length syms]"
  have d: "distinct (map fst ?ps)" using assms(2) by simp
  have m: "(syms ! idx, idx) \<in> set ?ps"
    using assms(3) by (auto simp: set_zip)
  from count_symbols_lookup[OF assms(1) d, of H Map.empty]
  obtain acc where acc: "count_symbols pD tD H ?ps Map.empty = Inr acc"
    "\<forall>p\<in>set ?ps. acc (fst p) = Some (accuracy_of (cells tD pD (snd p) H 0))" by blast
  from acc(2) m have "acc (syms ! idx) = Some (accuracy_of (cells tD pD idx H 0))" by force
  with acc(1) show ?thesis by (simp add: computePerStockAccuracy_def)
qed

lemma threshold_Fin: "threshold (Num (Fin p)) = (if 0.5 < p then Fin 1 else Fin 0)"
  by (simp add: threshold_def js_gt_def)

text \<open>
  C7. A predicted probability is classified as 1 exactly when it is strictly greater than
  0.5, so 0.5 itself gives 0. For matrices of the same number of rows and distinct
  symbols, both accuracy functions return, for the entity at index \<open>idx\<close>, the number of
  correct cells divided by the number of cells of its column block
  \<open>idx * horizon + h\<close>, taken over all samples and horizon days in order, and
  \<^verbatim>\<open>evaluatePerStock\<close> returns the records of these cells. For one sample, one entity,
  horizon 2, predictions \<open>[0.9, 0.4]\<close> and labels \<open>[1, 1]\<close> the accuracy is 0.5 and the
  records are (1, 1, correct) and (0, 1, wrong).
\<close>

theorem per_entity_accuracy:
  "threshold (Num (Fin p)) = (if 0.5 < p then Fin 1 else Fin 0) \<and>
   threshold (Num (Fin 0.5)) = Fin 0 \<and>
   (length yTrue = length yPred \<longrightarrow> distinct syms \<longrightarrow> idx < length syms \<longrightarrow>
      (\<exists>ev acc.
         evaluatePerStock yTrue yPred syms horizon = Inr ev \<and>
         computePerStockAccuracy yPred yTrue syms horizon = Inr acc \<and>
         stockPredictions ev (syms ! idx) = Some (cells yTrue yPred idx horizon 0) \<and>
         stockAccuracies ev (syms ! idx) =
           Some (num_div (Fin (real (length (filter correct (cells yTrue yPred idx horizon 0)))))
                         (Fin (real (length yTrue * horizon)))) \<and>
         acc (syms ! idx) = stockAccuracies ev (syms ! idx) \<and>
         length (cells yTrue yPred idx horizon 0) = length yTrue * horizon \<and>
         (\<forall>s<length yTrue. \<forall>h<horizon.
            cells yTrue yPred idx horizon 0 ! (s * horizon + h) =
              \<lparr>actual = num_get (yTrue ! s) (int (idx * horizon + h)),
               predicted = threshold (num_get (yPred ! s) (int (idx * horizon + h))),
               correct = js_strict_eq (num_get (yTrue ! s) (int (idx * horizon + h)))
                           (Num (threshold (num_get (yPred ! s) (int (idx * horizon + h)))))\<rparr>))) \<and>
   (\<exists>ev acc.
      evaluatePerStock [[Fin 1, Fin 1]] [[Fin 0.9, Fin 0.4]] [name] 2 = Inr ev \<and>
      computePerStockAccuracy [[Fin 0.9, Fin 0.4]] [[Fin 1, Fin 1]] [name] 2 = Inr acc \<and>
      stockAccuracies ev name = Some (Fin 0.5) \<and>
      acc name = Some (Fin 0.5) \<and>
      stockPredictions ev name =
        Some [\<lparr>actual = Num (Fin 1), predicted = Fin 1, correct = True\<rparr>,
              \<lparr>actual = Num (Fin 1), predicted = Fin 0, correct = False\<rparr>])"
proof (intro conjI impI)
  show "threshold (Num (Fin p)) = (if 0.5 < p then Fin 1 else Fin 0)" by (rule threshold_Fin)
  show "threshold (Num (Fin 0.5)) = Fin 0" by (simp add: threshold_Fin)
next
  assume a: "length yTrue = length yPred" "distinct syms" "idx < length syms"
  from a(1) have le: "length yTrue \<le> length yPred \<or> horizon = 0" by simp
  from evaluatePerStock_lookup[OF le a(2,3)] obtain ev where ev:
    "evaluatePerStock yTrue yPred syms horizon = Inr ev"
    "stockAccuracies ev (syms ! idx) = Some (accuracy_of (cells yTrue yPred idx horizon 0))"
    "stockPredictions ev (syms ! idx) = Some (cells yTrue yPred idx horizon 0)" by blast
  from computePerStockAccuracy_lookup[OF a(1)[symmetric] a(2,3), of horizon] obtain acc where acc:
    "computePerStockAccuracy yPred yTrue syms horizon = Inr acc"
    "acc (syms ! idx) = Some (accuracy_of (cells yTrue yPred idx horizon 0))" by blast
  have n: "\<forall>s<length yTrue. \<forall>h<horizon.
            cells yTrue yPred idx horizon 0 ! (s * horizon + h) =
              \<lparr>actual = num_get (yTrue ! s) (int (idx * horizon + h)),
               predicted = threshold (num_get (yPred ! s) (int (idx * horizon + h))),
               correct = js_strict_eq (num_get (yTrue ! s) (int (idx * horizon + h)))
                           (Num (threshold (num_get (yPred ! s) (int (idx * horizon + h)))))\<rparr>"
    by (simp add: nth_cells cell_at_def Let_def)
  show "\<exists>ev acc.
         evaluatePerStock yTrue yPred syms horizon = Inr ev \<and>
         computePerStockAccuracy yPred yTrue syms horizon = Inr acc \<and>
         stockPredictions ev (syms ! idx) = Some (cells yTrue yPred idx horizon 0) \<and>
         stockAccuracies ev (syms ! idx) =
           Some (num_div (Fin (real (length (filter correct (cells yTrue yPred idx horizon 0)))))
                         (Fin (real (length yTrue * horizon)))) \<and>
         acc (syms ! idx) = stockAccuracies ev (syms ! idx) \<and>
         length (cells yTrue yPred idx horizon 0) = length yTrue * horizon \<and>
         (\<forall>s<length yTrue. \<forall>h<horizon.
            cells yTrue yPred idx horizon 0 ! (s * horizon + h) =
              \<lparr>actual = num_get (yTrue ! s) (int (idx * horizon + h)),
               predicted = threshold (num_get (yPred ! s) (int (idx * horizon + h))),
               correct = js_strict_eq (num_get (yTrue ! s) (int (idx * horizon + h)))
                           (Num (threshold (num_get (yPred ! s) (int (idx * horizon + h)))))\<rparr>)"
    using ev acc n by (auto simp: accuracy_of_def length_cells)
next
  let ?yT = "[[Fin 1, Fin 1]]" and ?yP = "[[Fin 0.9, Fin 0.4]]"
  have c: "cells ?yT ?yP 0 2 0 =
      [\<lparr>actual = Num (Fin 1), predicted = Fin 1, correct = True\<rparr>,
       \<lparr>actual = Num (Fin 1), predicted = Fin 0, correct = False\<rparr>]"
    by code_simp
  have a: "accuracy_of (cells ?yT ?yP 0 2 0) = Fin 0.5"
    unfolding c by (simp add: accuracy_of_def)
  from evaluatePerStock_lookup[of ?yT ?yP 2 "[name]" 0] obtain ev where ev:
    "evaluatePerStock ?yT ?yP [name] 2 = Inr ev"
    "stockAccuracies ev name = Some (accuracy_of (cells ?yT ?yP 0 2 0))"
    "stockPredictions ev name = Some (cells ?yT ?yP 0 2 0)" by auto
  from computePerStockAccuracy_lookup[of ?yP ?yT "[name]" 0 2] obtain acc where acc:
    "computePerStockAccuracy ?yP ?yT [name] 2 = Inr acc"
    "acc name = Some (accuracy_of (cells ?yT ?yP 0 2 0))" by auto
  show "\<exists>ev acc.
      evaluatePerStock [[Fin 1, Fin 1]] [[Fin 0.9, Fin 0.4]] [name] 2 = Inr ev \<and>
      computePerStockAccuracy [[Fin 0.9, Fin 0.4]] [[Fin 1, Fin 1]] [name] 2 = Inr acc \<and>
      stockAccuracies ev name = Some (Fin 0.5) \<and>
      acc name = Some (Fin 0.5) \<and>
      stockPredictions ev name =
        Some [\<lparr>actual = Num (Fin 1), predicted = Fin 1, correct = True\<rparr>,
              \<lparr>actual = Num (Fin 1), predicted = Fin 0, correct = False\<rparr>]"
    using ev acc a c by auto
qed


theorem per_entity_accuracy_witness:
  "\<exists>ev. evaluatePerStock [[Fin 1, Fin 0, Fin 1, Fin 0, Fin 1, Fin 1], [Fin 1, Fin 1, Fin 0, Fin 0, Fin 0, Fin 1]]
                          [[Fin 0.9, Fin 0.2, Fin 0.4, Fin 0.5, Fin 0.7, Fin 0.8],
                           [Fin 0.6, Fin 0.3, Fin 0.1, Fin 0.2, Fin 0.6, Fin 0.9]]
                          [''AAPL'', ''MSFT''] 3 = Inr ev \<and>
        stockAccuracies ev ''MSFT'' = Some (Fin (5 / 6))"
proof -
  let ?yT = "[[Fin 1, Fin 0, Fin 1, Fin 0, Fin 1, Fin 1], [Fin 1, Fin 1, Fin 0, Fin 0, Fin 0, Fin 1]]"
  let ?yP = "[[Fin 0.9, Fin 0.2, Fin 0.4, Fin 0.5, Fin 0.7, Fin 0.8],
              [Fin 0.6, Fin 0.3, Fin 0.1, Fin 0.2, Fin 0.6, Fin 0.9]]"
  have n: "length (filter correct (cells ?yT ?yP 1 3 0)) = 5" by code_simp
  have d: "distinct [''AAPL'', ''MSFT'']" by simp
  from per_entity_accuracy[of 0 ?yT ?yP "[''AAPL'', ''MSFT'']" 1 3 "''x''"] d
  obtain ev where "evaluatePerStock ?yT ?yP [''AAPL'', ''MSFT''] 3 = Inr ev"
    "stockAccuracies ev ([''AAPL'', ''MSFT''] ! 1) =
       Some (num_div (Fin (real (length (filter correct (cells ?yT ?yP 1 3 0)))))
                     (Fin (real (length ?yT * 3))))"
    by auto
  then show ?thesis unfolding n by auto
qed

lemma eval_rows_empty: "eval_rows [] yP idx H 0 t = Inr t"
  by (subst eval_rows.simps) simp

lemma count_rows_empty: "count_rows [] tD idx H 0 ct = Inr ct"
  by (subst count_rows.simps) simp

lemma eval_symbols_empty:
  "\<exists>ev'. eval_symbols [] yP H ps ev = Inr ev' \<and>
     (\<forall>k\<in>fst ` set ps. stockAccuracies ev' k = Some NaN \<and> stockPredictions ev' k = Some []) \<and>
     (\<forall>k. k \<notin> fst ` set ps \<longrightarrow> stockAccuracies ev' k = stockAccuracies ev k \<and>
                                 stockPredictions ev' k = stockPredictions ev k)"
proof (induction ps arbitrary: ev)
  case Nil
  then show ?case by simp
next
  case (Cons p ps)
  obtain symbol idx where p: "p = (symbol, idx)" by (cases p)
  define ev1 where "ev1 = \<lparr>stockAccuracies = (stockAccuracies ev)(symbol \<mapsto> NaN),
           stockPredictions = (stockPredictions ev)(symbol \<mapsto> [])\<rparr>"
  have step: "eval_symbols [] yP H (p # ps) ev = eval_symbols [] yP H ps ev1"
    by (simp add: p ev1_def eval_rows_empty)
  from Cons.IH[of ev1] obtain ev' where ev':
    "eval_symbols [] yP H ps ev1 = Inr ev'"
    "\<forall>k\<in>fst ` set ps. stockAccuracies ev' k = Some NaN \<and> stockPredictions ev' k = Some []"
    "\<forall>k. k \<notin> fst ` set ps \<longrightarrow> stockAccuracies ev' k = stockAccuracies ev1 k \<and>
                                 stockPredictions ev' k = stockPredictions ev1 k"
    by blast
  have here: "stockAccuracies ev' symbol = Some NaN \<and> stockPredictions ev' symbol = Some []"
  proof (cases "symbol \<in> fst ` set ps")
    case True
    with ev'(2) show ?thesis by blast
  next
    case False
    with ev'(3) show ?thesis by (simp add: ev1_def)
  qed
  have others: "\<forall>k. k \<notin> fst ` set (p # ps) \<longrightarrow> stockAccuracies ev' k = stockAccuracies ev k \<and>
                                 stockPredictions ev' k = stockPredictions ev k"
    using ev'(3) by (simp add: p ev1_def)
  from step ev'(1) ev'(2) here others show ?case by (simp add: p)
qed

lemma count_symbols_empty:
  "\<exists>acc'. count_symbols [] tD H ps acc = Inr acc' \<and>
     (\<forall>k\<in>fst ` set ps. acc' k = Some NaN) \<and>
     (\<forall>k. k \<notin> fst ` set ps \<longrightarrow> acc' k = acc k)"
proof (induction ps arbitrary: acc)
  case Nil
  then show ?case by simp
next
  case (Cons p ps)
  obtain symbol idx where p: "p = (symbol, idx)" by (cases p)
  define acc1 where "acc1 = acc(symbol \<mapsto> NaN)"
  have step: "count_symbols [] tD H (p # ps) acc = count_symbols [] tD H ps acc1"
    by (simp add: p acc1_def count_rows_empty)
  from Cons.IH[of acc1] obtain acc' where acc':
    "count_symbols [] tD H ps acc1 = Inr acc'"
    "\<forall>k\<in>fst ` set ps. acc' k = Some NaN"
    "\<forall>k. k \<notin> fst ` set ps \<longrightarrow> acc' k = acc1 k"
    by blast
  have here: "acc' symbol = Some NaN"
  proof (cases "symbol \<in> fst ` set ps")
    case True
    with acc'(2) show ?thesis by blast
  next
    case False
    with acc'(3) show ?thesis by (simp add: acc1_def)
  qed
  have others: "\<forall>k. k \<notin> fst ` set (p # ps) \<longrightarrow> acc' k = acc k"
    using acc'(3) by (simp add: p acc1_def)
  from step acc'(1) acc'(2) here others show ?case by (simp add: p)
qed

text \<open>
  C8. With no sample, neither accuracy function raises an error: both return, and the
  accuracy of every symbol is \<open>0 / 0\<close>, that is NaN, with an empty list of records.
\<close>

theorem no_samples_gives_NaN:
  "(\<exists>ev acc. evaluatePerStock [] yPred syms horizon = Inr ev \<and>
             computePerStockAccuracy [] yTrue syms horizon = Inr acc \<and>
             (name \<in> set syms \<longrightarrow>
                stockAccuracies ev name = Some NaN \<and> stockPredictions ev name = Some [] \<and>
                acc name = Some NaN))"
proof -
  let ?ps = "zip syms [0..<length syms]"
  have f: "fst ` set ?ps = set syms"
    by (metis length_upt map_fst_zip set_map diff_zero)
  from eval_symbols_empty[of yPred horizon ?ps "\<lparr>stockAccuracies = Map.empty, stockPredictions = Map.empty\<rparr>"]
  obtain ev where ev: "evaluatePerStock [] yPred syms horizon = Inr ev"
    "\<forall>k\<in>set syms. stockAccuracies ev k = Some NaN \<and> stockPredictions ev k = Some []"
    unfolding f evaluatePerStock_def by blast
  from count_symbols_empty[of yTrue horizon ?ps Map.empty]
  obtain acc where acc: "computePerStockAccuracy [] yTrue syms horizon = Inr acc"
    "\<forall>k\<in>set syms. acc k = Some NaN"
    unfolding f computePerStockAccuracy_def by blast
  from ev acc show ?thesis by blast
qed

theorem no_samples_gives_NaN_witness:
  "\<exists>ev acc. evaluatePerStock [] [] [''AAPL'', ''MSFT''] 3 = Inr ev \<and>
            computePerStockAccuracy [] [] [''AAPL'', ''MSFT''] 3 = Inr acc \<and>
            stockAccuracies ev ''MSFT'' = Some NaN \<and> stockPredictions ev ''MSFT'' = Some [] \<and>
            acc ''MSFT'' = Some NaN"
  using no_samples_gives_NaN[of "[]" "[''AAPL'', ''MSFT'']" 3 "[]" "''MSFT''"] by simp

text \<open>
  C8, at one input: no samples and the symbol \<^verbatim>\<open>AAPL\<close>. The calls return; the accuracy
  is NaN.
\<close>

theorem empty_input_no_error:
  "map_sum id (\<lambda>ev. (stockAccuracies ev ''AAPL'', stockPredictions ev ''AAPL''))
     (evaluatePerStock [] [] [''AAPL''] 3) = Inr (Some NaN, Some []) \<and>
   map_sum id (\<lambda>acc. acc ''AAPL'') (computePerStockAccuracy [] [] [''AAPL''] 3) = Inr (Some NaN)"
  by code_simp



section \<open>The split\<close>

lemma windows_of_total:
  "\<exists>nd w. normalizedData_of rows = Inr nd \<and> dom nd = set (symbols_of rows) \<and>
     windows_of rows = Inr w \<and>
     length w = nat (int (length (allDates_of rows)) - 15) \<and>
     (\<forall>k<length w.
        sample_loop nd (symbols_of rows) (12 + int k) (int k) = Inr (fst (w ! k)) \<and>
        make_label nd (symbols_of rows) (12 + int k) = Inr (fst (snd (w ! k))) \<and>
        snd (snd (w ! k)) = allDates_of rows ! (12 + k))"
proof -
  obtain nd where nd: "normalizedData_of rows = Inr nd" "dom nd = set (symbols_of rows)"
    using normalizedData_of_total by blast
  then have sub: "set (symbols_of rows) \<subseteq> dom nd" by simp
  from window_loop_total[OF sub, of "allDates_of rows" 12] obtain w where w:
    "window_loop nd (symbols_of rows) (allDates_of rows) 12 = Inr w"
    "length w = nat (int (length (allDates_of rows)) - 3 - 12)"
    "\<forall>k<length w. sample_loop nd (symbols_of rows) (12 + int k) (12 + int k - 12) = Inr (fst (w ! k)) \<and>
                   make_label nd (symbols_of rows) (12 + int k) = Inr (fst (snd (w ! k))) \<and>
                   snd (snd (w ! k)) = allDates_of rows ! nat (12 + int k)" by blast
  have "windows_of rows = Inr w" using nd(1) w(1) by (simp add: windows_of_def WINDOW_SIZE_def)
  moreover have "length w = nat (int (length (allDates_of rows)) - 15)" using w(2) by simp
  moreover have "\<forall>k<length w.
        sample_loop nd (symbols_of rows) (12 + int k) (int k) = Inr (fst (w ! k)) \<and>
        make_label nd (symbols_of rows) (12 + int k) = Inr (fst (snd (w ! k))) \<and>
        snd (snd (w ! k)) = allDates_of rows ! (12 + k)"
  proof (intro allI impI)
    fix k assume "k < length w"
    with w(3) have "sample_loop nd (symbols_of rows) (12 + int k) (12 + int k - 12) = Inr (fst (w ! k)) \<and>
                   make_label nd (symbols_of rows) (12 + int k) = Inr (fst (snd (w ! k))) \<and>
                   snd (snd (w ! k)) = allDates_of rows ! nat (12 + int k)" by blast
    moreover have "nat (12 + int k) = 12 + k" by simp
    ultimately show "sample_loop nd (symbols_of rows) (12 + int k) (int k) = Inr (fst (w ! k)) \<and>
        make_label nd (symbols_of rows) (12 + int k) = Inr (fst (snd (w ! k))) \<and>
        snd (snd (w ! k)) = allDates_of rows ! (12 + k)" by simp
  qed
  ultimately show ?thesis using nd by blast
qed

lemma splitIndex_of_div: "splitIndex_of n = 4 * n div 5"
proof -
  have e: "real n * 0.8 = real (4 * n) / real 5" by simp
  have "\<lfloor>real n * 0.8\<rfloor> = \<lfloor>real (4 * n) / real 5\<rfloor>" by (simp only: e)
  also have "\<dots> = int (4 * n div 5)" by (rule floor_divide_of_nat_eq)
  finally show ?thesis by (simp add: splitIndex_of_def)
qed

lemma splitIndex_of_le: "splitIndex_of n \<le> n"
  by (simp add: splitIndex_of_div)

lemma splitIndex_of_pos: "2 \<le> n \<Longrightarrow> 0 < splitIndex_of n \<and> splitIndex_of n < n"
  by (simp add: splitIndex_of_div) arith

lemma splitIndex_of_small: "n \<le> 1 \<Longrightarrow> splitIndex_of n = 0"
  by (simp add: splitIndex_of_div)

lemma allDates_of_nonempty: "17 \<le> length (allDates_of rows) \<Longrightarrow> rows \<noteq> []"
  by (auto simp: allDates_of_def new_Set_def)

lemma windows_of_length:
  "windows_of rows = Inr w \<Longrightarrow> length w = nat (int (length (allDates_of rows)) - 15)"
  using windows_of_total[of rows] by auto

text \<open>
  With seventeen dates or more there are at least two windows, both parts of the split
  are non-empty and \<^verbatim>\<open>prepareData\<close> returns. With fewer, the training part is empty and
  the first tensor constructor raises.
\<close>

lemma prepareData_Inr:
  assumes "17 \<le> length (allDates_of rows)" "normalizedData_of rows = Inr nd"
    "windows_of rows = Inr w"
  shows "prepareData (Some rows) =
     Inr \<lparr>symbols = symbols_of rows,
          dateIndex = map (snd \<circ> snd) w,
          X_train = slice_to (map fst w) (splitIndex_of (length w)),
          y_train = slice_to (map (fst \<circ> snd) w) (splitIndex_of (length w)),
          X_test = slice_from (map fst w) (splitIndex_of (length w)),
          y_test = slice_from (map (fst \<circ> snd) w) (splitIndex_of (length w)),
          featureNames = concat (map (\<lambda>symbol. [symbol @ ''_Open'', symbol @ ''_Close''])
                                     (symbols_of rows)),
          processedData = nd\<rparr>"
proof -
  have ne: "rows \<noteq> []" using assms(1) by (rule allDates_of_nonempty)
  have "2 \<le> length w" using windows_of_length[OF assms(3)] assms(1) by simp
  then have sp: "0 < splitIndex_of (length w)" "splitIndex_of (length w) < length w"
    using splitIndex_of_pos[of "length w"] by simp_all
  then have w: "w \<noteq> []" by auto
  have t: "tf_tensor (slice_to (map fst w) (splitIndex_of (length w)))
             = Inr (slice_to (map fst w) (splitIndex_of (length w)))"
          "tf_tensor (slice_to (map (fst \<circ> snd) w) (splitIndex_of (length w)))
             = Inr (slice_to (map (fst \<circ> snd) w) (splitIndex_of (length w)))"
          "tf_tensor (slice_from (map fst w) (splitIndex_of (length w)))
             = Inr (slice_from (map fst w) (splitIndex_of (length w)))"
          "tf_tensor (slice_from (map (fst \<circ> snd) w) (splitIndex_of (length w)))
             = Inr (slice_from (map (fst \<circ> snd) w) (splitIndex_of (length w)))"
    using sp w by (simp_all add: tf_tensor_def slice_to_def slice_from_def)
  show ?thesis
    using ne assms(2,3) by (simp add: prepareData_def Let_def t)
qed

lemma prepareData_raises:
  assumes "rows \<noteq> []" "length (allDates_of rows) < 17"
  shows "prepareData (Some rows) = Inl TensorError"
proof -
  obtain nd w where nw: "normalizedData_of rows = Inr nd" "windows_of rows = Inr w"
    using windows_of_total[of rows] by blast
  have "length w \<le> 1" using windows_of_length[OF nw(2)] assms(2) by simp
  then have "splitIndex_of (length w) = 0" by (rule splitIndex_of_small)
  then have "tf_tensor (slice_to (map fst w) (splitIndex_of (length w))) = Inl TensorError"
    by (simp add: tf_tensor_def slice_to_def)
  then show ?thesis using assms(1) nw by (simp add: prepareData_def Let_def)
qed

lemma prepareData_Inr_dates:
  assumes "prepareData rawData = Inr r"
  shows "\<exists>rows. rawData = Some rows \<and> 17 \<le> length (allDates_of rows)"
proof -
  from assms obtain rows where r: "rawData = Some rows" "rows \<noteq> []"
    by (auto simp: prepareData_def split: option.splits if_splits)
  have "\<not> length (allDates_of rows) < 17"
    using prepareData_raises[OF r(2)] assms r(1) by auto
  with r(1) show ?thesis by auto
qed

text \<open>
  C5. For a sample sequence of length \<open>N\<close> the split index is \<open>\<lfloor>0.8 N\<rfloor>\<close>, which is
  \<open>4 N div 5\<close>; the training part is the first \<open>\<lfloor>0.8 N\<rfloor>\<close> samples and the test part the
  rest, so the two parts appended give the sequence back in its order, their lengths add
  up to \<open>N\<close>, and every training sample stands before every test sample. For a table
  with seventeen dates or more, \<^verbatim>\<open>prepareData\<close> returns exactly these parts of its
  window sequence: the \<open>k\<close>-th window is the sample of position \<open>12 + k\<close>, paired with the
  label vector and the date of that position, and samples, labels and dates are cut at
  the same index. With fewer dates there is at most one window, the training part is
  empty and the tensor constructor raises.
\<close>

theorem chronological_split:
  "slice_to xs (splitIndex_of (length xs)) @ slice_from xs (splitIndex_of (length xs)) = xs \<and>
   length (slice_to xs (splitIndex_of (length xs))) = nat \<lfloor>0.8 * real (length xs)\<rfloor> \<and>
   length (slice_to xs (splitIndex_of (length xs))) = 4 * length xs div 5 \<and>
   length (slice_to xs (splitIndex_of (length xs))) + length (slice_from xs (splitIndex_of (length xs)))
     = length xs \<and>
   (i < length (slice_to xs (splitIndex_of (length xs))) \<longrightarrow>
      slice_to xs (splitIndex_of (length xs)) ! i = xs ! i) \<and>
   (j < length (slice_from xs (splitIndex_of (length xs))) \<longrightarrow>
      slice_from xs (splitIndex_of (length xs)) ! j = xs ! (splitIndex_of (length xs) + j)) \<and>
   (17 \<le> length (allDates_of rows) \<longrightarrow>
      (\<exists>r w.
         prepareData (Some rows) = Inr r \<and> windows_of rows = Inr w \<and>
         length w = nat (int (length (allDates_of rows)) - 15) \<and>
         (\<forall>k<length w.
            sample_loop (processedData r) (symbols r) (12 + int k) (int k) = Inr (fst (w ! k)) \<and>
            make_label (processedData r) (symbols r) (12 + int k) = Inr (fst (snd (w ! k))) \<and>
            snd (snd (w ! k)) = allDates_of rows ! (12 + k)) \<and>
         X_train r = slice_to (map fst w) (splitIndex_of (length w)) \<and>
         X_test r = slice_from (map fst w) (splitIndex_of (length w)) \<and>
         y_train r = slice_to (map (fst \<circ> snd) w) (splitIndex_of (length w)) \<and>
         y_test r = slice_from (map (fst \<circ> snd) w) (splitIndex_of (length w)) \<and>
         dateIndex r = map (snd \<circ> snd) w \<and>
         X_train r @ X_test r = map fst w \<and>
         y_train r @ y_test r = map (fst \<circ> snd) w \<and>
         length (X_train r) = 4 * length w div 5 \<and>
         length (y_train r) = 4 * length w div 5 \<and>
         0 < length (X_train r) \<and> 0 < length (X_test r))) \<and>
   (rows \<noteq> [] \<longrightarrow> length (allDates_of rows) < 17 \<longrightarrow>
      prepareData (Some rows) = Inl TensorError)"
proof (intro conjI impI)
  show "slice_to xs (splitIndex_of (length xs)) @ slice_from xs (splitIndex_of (length xs)) = xs"
    by (simp add: slice_to_def slice_from_def)
  show "length (slice_to xs (splitIndex_of (length xs))) = nat \<lfloor>0.8 * real (length xs)\<rfloor>"
    using splitIndex_of_le[of "length xs"]
    by (simp add: slice_to_def splitIndex_of_def mult.commute)
  show "length (slice_to xs (splitIndex_of (length xs))) = 4 * length xs div 5"
    using splitIndex_of_le[of "length xs"] by (simp add: slice_to_def splitIndex_of_div)
  show "length (slice_to xs (splitIndex_of (length xs))) + length (slice_from xs (splitIndex_of (length xs)))
     = length xs"
    using splitIndex_of_le[of "length xs"] by (simp add: slice_to_def slice_from_def)
next
  assume "i < length (slice_to xs (splitIndex_of (length xs)))"
  then show "slice_to xs (splitIndex_of (length xs)) ! i = xs ! i"
    by (simp add: slice_to_def)
next
  assume "j < length (slice_from xs (splitIndex_of (length xs)))"
  then show "slice_from xs (splitIndex_of (length xs)) ! j = xs ! (splitIndex_of (length xs) + j)"
    by (simp add: slice_from_def)
next
  assume "rows \<noteq> []" "length (allDates_of rows) < 17"
  then show "prepareData (Some rows) = Inl TensorError" by (rule prepareData_raises)
next
  assume ne: "17 \<le> length (allDates_of rows)"
  obtain nd w where nw: "normalizedData_of rows = Inr nd" "windows_of rows = Inr w"
    and lw: "length w = nat (int (length (allDates_of rows)) - 15)"
    and ww: "\<forall>k<length w.
        sample_loop nd (symbols_of rows) (12 + int k) (int k) = Inr (fst (w ! k)) \<and>
        make_label nd (symbols_of rows) (12 + int k) = Inr (fst (snd (w ! k))) \<and>
        snd (snd (w ! k)) = allDates_of rows ! (12 + k)"
    using windows_of_total[of rows] by blast
  define r where "r = \<lparr>symbols = symbols_of rows,
          dateIndex = map (snd \<circ> snd) w,
          X_train = slice_to (map fst w) (splitIndex_of (length w)),
          y_train = slice_to (map (fst \<circ> snd) w) (splitIndex_of (length w)),
          X_test = slice_from (map fst w) (splitIndex_of (length w)),
          y_test = slice_from (map (fst \<circ> snd) w) (splitIndex_of (length w)),
          featureNames = concat (map (\<lambda>symbol. [symbol @ ''_Open'', symbol @ ''_Close''])
                                     (symbols_of rows)),
          processedData = nd\<rparr>"
  have p: "prepareData (Some rows) = Inr r"
    unfolding r_def by (rule prepareData_Inr[OF ne nw])
  have "2 \<le> length w" using lw ne by simp
  then have sp: "0 < splitIndex_of (length w)" "splitIndex_of (length w) < length w"
    using splitIndex_of_pos[of "length w"] by simp_all
  have 1: "\<forall>k<length w.
            sample_loop (processedData r) (symbols r) (12 + int k) (int k) = Inr (fst (w ! k)) \<and>
            make_label (processedData r) (symbols r) (12 + int k) = Inr (fst (snd (w ! k))) \<and>
            snd (snd (w ! k)) = allDates_of rows ! (12 + k)"
    using ww by (simp add: r_def)
  have 2: "X_train r = slice_to (map fst w) (splitIndex_of (length w))" by (simp add: r_def)
  have 3: "X_test r = slice_from (map fst w) (splitIndex_of (length w))" by (simp add: r_def)
  have 4: "y_train r = slice_to (map (fst \<circ> snd) w) (splitIndex_of (length w))"
    by (simp add: r_def)
  have 5: "y_test r = slice_from (map (fst \<circ> snd) w) (splitIndex_of (length w))"
    by (simp add: r_def)
  have 6: "dateIndex r = map (snd \<circ> snd) w" by (simp add: r_def)
  have 7: "X_train r @ X_test r = map fst w"
    by (simp add: r_def slice_to_def slice_from_def)
  have 8: "y_train r @ y_test r = map (fst \<circ> snd) w"
    by (simp add: r_def slice_to_def slice_from_def)
  have 9: "length (X_train r) = 4 * length w div 5"
    using sp by (simp add: r_def slice_to_def splitIndex_of_div)
  have 10: "length (y_train r) = 4 * length w div 5"
    using sp by (simp add: r_def slice_to_def splitIndex_of_div)
  have 11: "0 < length (X_train r)" using sp by (simp add: r_def slice_to_def)
  have 12: "0 < length (X_test r)" using sp by (simp add: r_def slice_from_def)
  show "\<exists>r w.
         prepareData (Some rows) = Inr r \<and> windows_of rows = Inr w \<and>
         length w = nat (int (length (allDates_of rows)) - 15) \<and>
         (\<forall>k<length w.
            sample_loop (processedData r) (symbols r) (12 + int k) (int k) = Inr (fst (w ! k)) \<and>
            make_label (processedData r) (symbols r) (12 + int k) = Inr (fst (snd (w ! k))) \<and>
            snd (snd (w ! k)) = allDates_of rows ! (12 + k)) \<and>
         X_train r = slice_to (map fst w) (splitIndex_of (length w)) \<and>
         X_test r = slice_from (map fst w) (splitIndex_of (length w)) \<and>
         y_train r = slice_to (map (fst \<circ> snd) w) (splitIndex_of (length w)) \<and>
         y_test r = slice_from (map (fst \<circ> snd) w) (splitIndex_of (length w)) \<and>
         dateIndex r = map (snd \<circ> snd) w \<and>
         X_train r @ X_test r = map fst w \<and>
         y_train r @ y_test r = map (fst \<circ> snd) w \<and>
         length (X_train r) = 4 * length w div 5 \<and>
         length (y_train r) = 4 * length w div 5 \<and>
         0 < length (X_train r) \<and> 0 < length (X_test r)"
    by (intro exI[of _ r] exI[of _ w] conjI p nw(2) lw 1 2 3 4 5 6 7 8 9 10 11 12)
qed

theorem chronological_split_witness:
  "slice_to [10, 20, 30, 40, 50, 60, 70 :: nat] (splitIndex_of 7) = [10, 20, 30, 40, 50] \<and>
   slice_from [10, 20, 30, 40, 50, 60, 70 :: nat] (splitIndex_of 7) = [60, 70] \<and>
   (\<exists>r w. prepareData (Some rows_label) = Inr r \<and> windows_of rows_label = Inr w \<and>
        length w = 2 \<and> X_train r = [fst (w ! 0)] \<and> X_test r = [fst (w ! 1)] \<and>
        y_train r = [fst (snd (w ! 0))] \<and> y_test r = [fst (snd (w ! 1))] \<and>
        dateIndex r = [''2024-01-17'', ''2024-01-18'']) \<and>
   prepareData (Some rows_short) = Inl TensorError"
proof -
  let ?xs = "[10, 20, 30, 40, 50, 60, 70 :: nat]"
  have s7: "splitIndex_of 7 = 5" by (simp add: splitIndex_of_div)
  have s2: "splitIndex_of 2 = 1" by (simp add: splitIndex_of_div)
  have ne: "17 \<le> length (allDates_of rows_label)" by code_simp
  have D: "length (allDates_of rows_label) = 17" by code_simp
  have dt: "map_sum id dateIndex (prepareData (Some rows_label)) =
      Inr [''2024-01-17'', ''2024-01-18'']" by code_simp
  have sh: "rows_short \<noteq> []" by code_simp
  have sd: "length (allDates_of rows_short) < 17" by code_simp
  have a: "slice_to ?xs (splitIndex_of 7) = [10, 20, 30, 40, 50]"
    by (simp add: s7 slice_to_def)
  have b: "slice_from ?xs (splitIndex_of 7) = [60, 70]"
    by (simp add: s7 slice_from_def)
  note t = chronological_split[of ?xs 0 0 rows_label, THEN conjunct2, THEN conjunct2,
      THEN conjunct2, THEN conjunct2, THEN conjunct2, THEN conjunct2, THEN conjunct1,
      rule_format, OF ne]
  note u = chronological_split[of ?xs 0 0 rows_short, THEN conjunct2, THEN conjunct2,
      THEN conjunct2, THEN conjunct2, THEN conjunct2, THEN conjunct2, THEN conjunct2,
      rule_format, OF sh sd]
  from t obtain r w where r:
    "prepareData (Some rows_label) = Inr r" "windows_of rows_label = Inr w"
    "length w = nat (int (length (allDates_of rows_label)) - 15)"
    "X_train r = slice_to (map fst w) (splitIndex_of (length w))"
    "X_test r = slice_from (map fst w) (splitIndex_of (length w))"
    "y_train r = slice_to (map (fst \<circ> snd) w) (splitIndex_of (length w))"
    "y_test r = slice_from (map (fst \<circ> snd) w) (splitIndex_of (length w))" by blast
  have l: "length w = 2" using r(3) by (simp add: D)
  then obtain p q where w: "w = [p, q]"
    by (auto simp: length_Suc_conv numeral_2_eq_2)
  have x: "X_train r = [fst (w ! 0)]" "X_test r = [fst (w ! 1)]"
    "y_train r = [fst (snd (w ! 0))]" "y_test r = [fst (snd (w ! 1))]"
    using r(4-7) by (simp_all add: w splitIndex_of_div slice_to_def slice_from_def)
  have d: "dateIndex r = [''2024-01-17'', ''2024-01-18'']" using dt r(1) by simp
  have "\<exists>r w. prepareData (Some rows_label) = Inr r \<and> windows_of rows_label = Inr w \<and>
        length w = 2 \<and> X_train r = [fst (w ! 0)] \<and> X_test r = [fst (w ! 1)] \<and>
        y_train r = [fst (snd (w ! 0))] \<and> y_test r = [fst (snd (w ! 1))] \<and>
        dateIndex r = [''2024-01-17'', ''2024-01-18'']"
    by (intro exI[of _ r] exI[of _ w] conjI r(1) r(2) l x d)
  with a b u show ?thesis by simp
qed

section \<open>The positions of the windows\<close>

lemma distinct_allDates_of: "distinct (allDates_of rows)"
  by (simp add: allDates_of_def distinct_new_Set)

lemma set_createSequences_anchors:
  "j \<in> set (createSequences_anchors len outputLen i0) \<longleftrightarrow> i0 \<le> j \<and> j \<le> len - outputLen - 1"
proof (induction len outputLen i0 rule: createSequences_anchors.induct)
  case (1 len outputLen i)
  show ?case
  proof (cases "i \<le> len - outputLen - 1")
    case True
    have "createSequences_anchors len outputLen i = i # createSequences_anchors len outputLen (i + 1)"
      using True by (subst createSequences_anchors.simps) simp
    then have "j \<in> set (createSequences_anchors len outputLen i) \<longleftrightarrow>
        j = i \<or> (i + 1 \<le> j \<and> j \<le> len - outputLen - 1)"
      using 1[OF True] by simp
    also have "\<dots> \<longleftrightarrow> i \<le> j \<and> j \<le> len - outputLen - 1" using True by arith
    finally show ?thesis .
  next
    case False
    have "createSequences_anchors len outputLen i = []"
      using False by (subst createSequences_anchors.simps) simp
    then have "j \<notin> set (createSequences_anchors len outputLen i)" by simp
    moreover have "\<not> (i \<le> j \<and> j \<le> len - outputLen - 1)" using False by arith
    ultimately show ?thesis by simp
  qed
qed

text \<open>
  C2. \<^verbatim>\<open>prepareData\<close> on a table with seventeen dates or more returns, and a position
  \<open>i\<close> of the date axis is the position of one of its samples exactly when \<open>i - 12 \<ge> 0\<close> and
  \<open>i + 3 \<le> length - 1\<close>: the \<open>k\<close>-th entry of \<^verbatim>\<open>dateIndex\<close> is the date at position
  \<open>12 + k\<close>, there are \<open>length - 15\<close> of them, and as many samples and label vectors. On a
  table with fewer dates the window loop visits the same positions, at most one, and the
  tensor constructor then raises on the empty training part. The loop header of
  \<^verbatim>\<open>createSequences\<close> visits the same positions.
\<close>

theorem anchor_positions:
  "(17 \<le> length (allDates_of rows) \<longrightarrow>
     (\<exists>r. prepareData (Some rows) = Inr r \<and>
          length (dateIndex r) = nat (int (length (allDates_of rows)) - 15) \<and>
          length (X_train r) + length (X_test r) = length (dateIndex r) \<and>
          length (y_train r) + length (y_test r) = length (dateIndex r) \<and>
          (\<forall>k<length (dateIndex r). dateIndex r ! k = allDates_of rows ! (12 + k)) \<and>
          (\<forall>i. 0 \<le> i \<and> i < int (length (allDates_of rows)) \<longrightarrow>
             (allDates_of rows ! nat i \<in> set (dateIndex r) \<longleftrightarrow>
              0 \<le> i - 12 \<and> i + 3 \<le> int (length (allDates_of rows)) - 1)))) \<and>
   (rows \<noteq> [] \<longrightarrow> length (allDates_of rows) < 17 \<longrightarrow>
      prepareData (Some rows) = Inl TensorError) \<and>
   (\<exists>w. windows_of rows = Inr w \<and>
        length w = nat (int (length (allDates_of rows)) - 15) \<and>
        (\<forall>k<length w. snd (snd (w ! k)) = allDates_of rows ! (12 + k))) \<and>
   (i \<in> set (createSequences_anchors len 3 12) \<longleftrightarrow> 0 \<le> i - 12 \<and> i + 3 \<le> len - 1)"
proof (intro conjI impI)
  show "i \<in> set (createSequences_anchors len 3 12) \<longleftrightarrow> 0 \<le> i - 12 \<and> i + 3 \<le> len - 1"
    using set_createSequences_anchors[of i len 3 12] by arith
next
  assume "rows \<noteq> []" "length (allDates_of rows) < 17"
  then show "prepareData (Some rows) = Inl TensorError" by (rule prepareData_raises)
next
  obtain w where "windows_of rows = Inr w"
    "length w = nat (int (length (allDates_of rows)) - 15)"
    "\<forall>k<length w. snd (snd (w ! k)) = allDates_of rows ! (12 + k)"
    using windows_of_total[of rows] by blast
  then show "\<exists>w. windows_of rows = Inr w \<and>
        length w = nat (int (length (allDates_of rows)) - 15) \<and>
        (\<forall>k<length w. snd (snd (w ! k)) = allDates_of rows ! (12 + k))"
    by (intro exI[of _ w] conjI)
next
  assume ne: "17 \<le> length (allDates_of rows)"
  let ?D = "allDates_of rows"
  obtain nd w where nw: "normalizedData_of rows = Inr nd" "windows_of rows = Inr w"
    and lw: "length w = nat (int (length ?D) - 15)"
    and ww: "\<forall>k<length w. snd (snd (w ! k)) = ?D ! (12 + k)"
    using windows_of_total[of rows] by blast
  define r where "r = \<lparr>symbols = symbols_of rows,
          dateIndex = map (snd \<circ> snd) w,
          X_train = slice_to (map fst w) (splitIndex_of (length w)),
          y_train = slice_to (map (fst \<circ> snd) w) (splitIndex_of (length w)),
          X_test = slice_from (map fst w) (splitIndex_of (length w)),
          y_test = slice_from (map (fst \<circ> snd) w) (splitIndex_of (length w)),
          featureNames = concat (map (\<lambda>symbol. [symbol @ ''_Open'', symbol @ ''_Close''])
                                     (symbols_of rows)),
          processedData = nd\<rparr>"
  have p: "prepareData (Some rows) = Inr r"
    unfolding r_def by (rule prepareData_Inr[OF ne nw])
  have l: "length (dateIndex r) = nat (int (length ?D) - 15)" by (simp add: r_def lw)
  have x: "length (X_train r) + length (X_test r) = length (dateIndex r)"
    using splitIndex_of_le[of "length w"] by (simp add: r_def slice_to_def slice_from_def)
  have y: "length (y_train r) + length (y_test r) = length (dateIndex r)"
    using splitIndex_of_le[of "length w"] by (simp add: r_def slice_to_def slice_from_def)
  have d: "\<forall>k<length (dateIndex r). dateIndex r ! k = ?D ! (12 + k)"
    using ww by (simp add: r_def)
  have m: "\<forall>i. 0 \<le> i \<and> i < int (length ?D) \<longrightarrow>
             (?D ! nat i \<in> set (dateIndex r) \<longleftrightarrow> 0 \<le> i - 12 \<and> i + 3 \<le> int (length ?D) - 1)"
  proof (intro allI impI)
    fix i :: int assume i: "0 \<le> i \<and> i < int (length ?D)"
    show "?D ! nat i \<in> set (dateIndex r) \<longleftrightarrow> 0 \<le> i - 12 \<and> i + 3 \<le> int (length ?D) - 1"
    proof
      assume "?D ! nat i \<in> set (dateIndex r)"
      then obtain k where k: "k < length (dateIndex r)" "dateIndex r ! k = ?D ! nat i"
        by (auto simp: in_set_conv_nth)
      with d have e: "?D ! (12 + k) = ?D ! nat i" by simp
      have "12 + k < length ?D" using k(1) l by simp
      moreover have "nat i < length ?D" using i by linarith
      ultimately have "12 + k = nat i"
        using e distinct_allDates_of[of rows] by (simp add: nth_eq_iff_index_eq)
      with k(1) l i show "0 \<le> i - 12 \<and> i + 3 \<le> int (length ?D) - 1" by linarith
    next
      assume b: "0 \<le> i - 12 \<and> i + 3 \<le> int (length ?D) - 1"
      define k where "k = nat (i - 12)"
      have k: "k < length (dateIndex r)" "12 + k = nat i" using b l unfolding k_def by linarith+
      with d have "dateIndex r ! k = ?D ! nat i" by simp
      with k(1) show "?D ! nat i \<in> set (dateIndex r)" by (auto simp: in_set_conv_nth)
    qed
  qed
  from p l x y d m show "\<exists>r. prepareData (Some rows) = Inr r \<and>
          length (dateIndex r) = nat (int (length ?D) - 15) \<and>
          length (X_train r) + length (X_test r) = length (dateIndex r) \<and>
          length (y_train r) + length (y_test r) = length (dateIndex r) \<and>
          (\<forall>k<length (dateIndex r). dateIndex r ! k = ?D ! (12 + k)) \<and>
          (\<forall>i. 0 \<le> i \<and> i < int (length ?D) \<longrightarrow>
             (?D ! nat i \<in> set (dateIndex r) \<longleftrightarrow> 0 \<le> i - 12 \<and> i + 3 \<le> int (length ?D) - 1))"
    by (intro exI[of _ r] conjI)
qed

theorem anchor_positions_witness:
  "(\<exists>r. prepareData (Some rows_two) = Inr r \<and>
       dateIndex r = [''2024-01-17'', ''2024-01-18''] \<and>
       length (X_train r) + length (X_test r) = 2 \<and>
       ''2024-01-16'' \<notin> set (dateIndex r) \<and> ''2024-01-19'' \<notin> set (dateIndex r)) \<and>
   prepareData (Some rows_short) = Inl TensorError"
proof -
  have ne: "17 \<le> length (allDates_of rows_two)" by code_simp
  have sh: "rows_short \<noteq> []" by code_simp
  have sd: "length (allDates_of rows_short) < 17" by code_simp
  note u = anchor_positions[of rows_short 0 0, THEN conjunct2, THEN conjunct1, rule_format,
      OF sh sd]
  have D: "allDates_of rows_two = example_dates" by code_simp
  have n: "length example_dates = 17" by (simp add: example_dates_def)
  from anchor_positions[of rows_two 0 0, THEN conjunct1, rule_format, OF ne] obtain r where r:
    "prepareData (Some rows_two) = Inr r"
    "length (dateIndex r) = nat (int (length (allDates_of rows_two)) - 15)"
    "length (X_train r) + length (X_test r) = length (dateIndex r)"
    "\<forall>k<length (dateIndex r). dateIndex r ! k = allDates_of rows_two ! (12 + k)" by blast
  have l: "length (dateIndex r) = 2" using r(2) by (simp add: D n)
  have "dateIndex r ! 0 = example_dates ! 12" "dateIndex r ! 1 = example_dates ! 13"
    using r(4) l by (simp_all add: D)
  then have "dateIndex r ! 0 = ''2024-01-17''" "dateIndex r ! 1 = ''2024-01-18''"
    by (simp_all add: example_dates_def)
  moreover obtain a b where "dateIndex r = [a, b]"
    using l by (auto simp: length_Suc_conv numeral_2_eq_2)
  ultimately have d: "dateIndex r = [''2024-01-17'', ''2024-01-18'']" by simp
  have "length (X_train r) + length (X_test r) = 2" using r(3) l by simp
  with r(1) d u show ?thesis by simp
qed

section \<open>The layout of samples and labels\<close>

lemma sample_loop_layout:
  assumes sub: "set ss \<subseteq> dom nd" and s: "sample_loop nd ss (12 + int k) (int k) = Inr smp"
  shows "length smp = 12 \<and>
         (\<forall>t<12. length (smp ! t) = 2 * length ss \<and>
            (\<forall>e<length ss. \<exists>ns. nd (ss ! e) = Some ns \<and>
               smp ! t ! (2 * e) = num_get (nOpen ns) (int k + int t) \<and>
               smp ! t ! (2 * e + 1) = num_get (nClose ns) (int k + int t)))"
proof -
  from sample_loop_total[OF sub, of "12 + int k" "int k"] s
  have l: "length smp = 12" and ts: "\<forall>t<length smp. timeStep nd ss (int k + int t) = Inr (smp ! t)"
    by auto
  have "\<forall>t<12. length (smp ! t) = 2 * length ss \<and>
            (\<forall>e<length ss. \<exists>ns. nd (ss ! e) = Some ns \<and>
               smp ! t ! (2 * e) = num_get (nOpen ns) (int k + int t) \<and>
               smp ! t ! (2 * e + 1) = num_get (nClose ns) (int k + int t))"
  proof (intro allI impI)
    fix t :: nat assume t: "t < 12"
    with ts l have st: "timeStep nd ss (int k + int t) = Inr (smp ! t)" by simp
    from timeStep_total[OF sub, of "int k + int t"] st
    have a: "length (smp ! t) = 2 * length ss"
      and b: "\<forall>e<length ss. \<forall>ns. nd (ss ! e) = Some ns \<longrightarrow>
           smp ! t ! (2 * e) = num_get (nOpen ns) (int k + int t) \<and>
           smp ! t ! (2 * e + 1) = num_get (nClose ns) (int k + int t)"
      by auto
    have "\<forall>e<length ss. \<exists>ns. nd (ss ! e) = Some ns \<and>
               smp ! t ! (2 * e) = num_get (nOpen ns) (int k + int t) \<and>
               smp ! t ! (2 * e + 1) = num_get (nClose ns) (int k + int t)"
    proof (intro allI impI)
      fix e assume e: "e < length ss"
      then have "ss ! e \<in> set ss" by (rule nth_mem)
      with sub have "ss ! e \<in> dom nd" by blast
      then obtain ns where ns: "nd (ss ! e) = Some ns" by (auto simp: dom_def)
      with b e show "\<exists>ns. nd (ss ! e) = Some ns \<and>
               smp ! t ! (2 * e) = num_get (nOpen ns) (int k + int t) \<and>
               smp ! t ! (2 * e + 1) = num_get (nClose ns) (int k + int t)" by simp
    qed
    with a show "length (smp ! t) = 2 * length ss \<and>
            (\<forall>e<length ss. \<exists>ns. nd (ss ! e) = Some ns \<and>
               smp ! t ! (2 * e) = num_get (nOpen ns) (int k + int t) \<and>
               smp ! t ! (2 * e + 1) = num_get (nClose ns) (int k + int t))" by simp
  qed
  with l show ?thesis by simp
qed

lemma make_label_layout:
  assumes sub: "set ss \<subseteq> dom nd" and m: "make_label nd ss i = Inr lab"
  shows "length lab = 3 * length ss \<and>
         (\<forall>e<length ss. \<exists>ns. nd (ss ! e) = Some ns \<and>
            (\<forall>d<3. lab ! (3 * e + d) =
               (if js_gt (num_get (nClose ns) (i + int d)) (num_get (nClose ns) (i - 1))
                then Fin 1 else Fin 0)))"
proof -
  from make_label_total[OF sub, of i] m
  have a: "length lab = 3 * length ss"
    and b: "\<forall>e<length ss. \<forall>k<3. \<forall>ns. nd (ss ! e) = Some ns \<longrightarrow>
           lab ! (3 * e + k) =
             (if js_gt (num_get (nClose ns) (i + int k)) (num_get (nClose ns) (i - 1))
              then Fin 1 else Fin 0)"
    by auto
  have "\<forall>e<length ss. \<exists>ns. nd (ss ! e) = Some ns \<and>
            (\<forall>d<3. lab ! (3 * e + d) =
               (if js_gt (num_get (nClose ns) (i + int d)) (num_get (nClose ns) (i - 1))
                then Fin 1 else Fin 0))"
  proof (intro allI impI)
    fix e assume e: "e < length ss"
    then have "ss ! e \<in> set ss" by (rule nth_mem)
    with sub have "ss ! e \<in> dom nd" by blast
    then obtain ns where ns: "nd (ss ! e) = Some ns" by (auto simp: dom_def)
    with b e show "\<exists>ns. nd (ss ! e) = Some ns \<and>
            (\<forall>d<3. lab ! (3 * e + d) =
               (if js_gt (num_get (nClose ns) (i + int d)) (num_get (nClose ns) (i - 1))
                then Fin 1 else Fin 0))" by simp
  qed
  with a show ?thesis by simp
qed

lemma slices_append: "slice_to xs (splitIndex_of n) @ slice_from xs (splitIndex_of n) = xs"
  by (simp add: slice_to_def slice_from_def)

text \<open>What \<^verbatim>\<open>prepareData\<close> returns for a table with seventeen dates or more.\<close>

lemma prepareData_layout:
  assumes ne: "17 \<le> length (allDates_of rows)"
  shows "\<exists>r. prepareData (Some rows) = Inr r \<and>
     symbols r = symbols_of rows \<and>
     normalizedData_of rows = Inr (processedData r) \<and>
     dom (processedData r) = set (symbols_of rows) \<and>
     length (X_train r @ X_test r) = nat (int (length (allDates_of rows)) - 15) \<and>
     length (y_train r @ y_test r) = nat (int (length (allDates_of rows)) - 15) \<and>
     length (dateIndex r) = nat (int (length (allDates_of rows)) - 15) \<and>
     (\<forall>k<nat (int (length (allDates_of rows)) - 15).
        sample_loop (processedData r) (symbols_of rows) (12 + int k) (int k)
          = Inr ((X_train r @ X_test r) ! k) \<and>
        make_label (processedData r) (symbols_of rows) (12 + int k)
          = Inr ((y_train r @ y_test r) ! k) \<and>
        dateIndex r ! k = allDates_of rows ! (12 + k))"
proof -
  let ?D = "allDates_of rows"
  obtain nd w where nw: "normalizedData_of rows = Inr nd" "windows_of rows = Inr w"
    and dm: "dom nd = set (symbols_of rows)"
    and lw: "length w = nat (int (length ?D) - 15)"
    and ww: "\<forall>k<length w.
        sample_loop nd (symbols_of rows) (12 + int k) (int k) = Inr (fst (w ! k)) \<and>
        make_label nd (symbols_of rows) (12 + int k) = Inr (fst (snd (w ! k))) \<and>
        snd (snd (w ! k)) = ?D ! (12 + k)"
    using windows_of_total[of rows] by blast
  define r where "r = \<lparr>symbols = symbols_of rows,
          dateIndex = map (snd \<circ> snd) w,
          X_train = slice_to (map fst w) (splitIndex_of (length w)),
          y_train = slice_to (map (fst \<circ> snd) w) (splitIndex_of (length w)),
          X_test = slice_from (map fst w) (splitIndex_of (length w)),
          y_test = slice_from (map (fst \<circ> snd) w) (splitIndex_of (length w)),
          featureNames = concat (map (\<lambda>symbol. [symbol @ ''_Open'', symbol @ ''_Close''])
                                     (symbols_of rows)),
          processedData = nd\<rparr>"
  have p: "prepareData (Some rows) = Inr r"
    unfolding r_def by (rule prepareData_Inr[OF ne nw])
  have X: "X_train r @ X_test r = map fst w" by (simp add: r_def slices_append)
  have Y: "y_train r @ y_test r = map (fst \<circ> snd) w" by (simp add: r_def slices_append)
  have 1: "symbols r = symbols_of rows" by (simp add: r_def)
  have 2: "normalizedData_of rows = Inr (processedData r)" by (simp add: r_def nw)
  have 3: "dom (processedData r) = set (symbols_of rows)" by (simp add: r_def dm)
  have 4: "length (X_train r @ X_test r) = nat (int (length ?D) - 15)" by (simp only: X length_map lw)
  have 5: "length (y_train r @ y_test r) = nat (int (length ?D) - 15)" by (simp only: Y length_map lw)
  have 6: "length (dateIndex r) = nat (int (length ?D) - 15)" by (simp add: r_def lw)
  have 7: "\<forall>k<nat (int (length ?D) - 15).
        sample_loop (processedData r) (symbols_of rows) (12 + int k) (int k)
          = Inr ((X_train r @ X_test r) ! k) \<and>
        make_label (processedData r) (symbols_of rows) (12 + int k)
          = Inr ((y_train r @ y_test r) ! k) \<and>
        dateIndex r ! k = ?D ! (12 + k)"
  proof (intro allI impI)
    fix k assume "k < nat (int (length ?D) - 15)"
    then have k: "k < length w" by (simp add: lw)
    have pd: "processedData r = nd" by (simp add: r_def)
    have di: "dateIndex r ! k = snd (snd (w ! k))" using k by (simp add: r_def)
    have xk: "(X_train r @ X_test r) ! k = fst (w ! k)" using k by (simp only: X nth_map)
    have yk: "(y_train r @ y_test r) ! k = fst (snd (w ! k))" using k by (simp only: Y nth_map comp_apply)
    from ww k show "sample_loop (processedData r) (symbols_of rows) (12 + int k) (int k)
          = Inr ((X_train r @ X_test r) ! k) \<and>
        make_label (processedData r) (symbols_of rows) (12 + int k)
          = Inr ((y_train r @ y_test r) ! k) \<and>
        dateIndex r ! k = ?D ! (12 + k)"
      by (simp only: pd di xk yk)
  qed
  show ?thesis by (intro exI[of _ r] conjI p 1 2 3 4 5 6 7)
qed

section \<open>The labels\<close>

lemma label_days_binary: "\<forall>x\<in>set (label_days closes cc i 0). x = Fin 0 \<or> x = Fin 1"
  by (auto simp: label_days_eq)

lemma make_label_binary:
  "make_label nd ss i = Inr lab \<Longrightarrow> \<forall>x\<in>set lab. x = Fin 0 \<or> x = Fin 1"
proof (induction ss arbitrary: lab)
  case Nil
  then show ?case by simp
next
  case (Cons s ss)
  from Cons.prems obtain v others where v: "nd s = Some v" "make_label nd ss i = Inr others"
    "lab = label_days (nClose v) (num_get (nClose v) (i - 1)) i 0 @ others"
    by (auto simp: Let_def split: option.splits sum.splits)
  from Cons.IH[OF v(2)] label_days_binary[of "nClose v" "num_get (nClose v) (i - 1)" i]
  show ?case unfolding v(3) by auto
qed

lemma future_labels_binary:
  "\<forall>x\<in>set (future_labels pivot dates syms cd i outputLen off). x = Fin 0 \<or> x = Fin 1"
proof (induction pivot dates syms cd i outputLen off rule: future_labels.induct)
  case (1 pivot dates syms cd i outputLen off)
  show ?case
  proof (cases "off \<le> outputLen")
    case False
    then show ?thesis by (subst future_labels.simps) simp
  next
    case True
    from 1[OF True refl] True show ?thesis
      by (subst future_labels.simps) (auto simp: Let_def)
  qed
qed

lemma windows_of_labels_binary:
  assumes "windows_of rows = Inr w" "t \<in> set w"
  shows "\<forall>x\<in>set (fst (snd t)). x = Fin 0 \<or> x = Fin 1"
proof -
  obtain nd w' where nw: "windows_of rows = Inr w'"
    and ww: "\<forall>k<length w'.
        sample_loop nd (symbols_of rows) (12 + int k) (int k) = Inr (fst (w' ! k)) \<and>
        make_label nd (symbols_of rows) (12 + int k) = Inr (fst (snd (w' ! k))) \<and>
        snd (snd (w' ! k)) = allDates_of rows ! (12 + k)"
    using windows_of_total[of rows] by blast
  from nw assms(1) have e: "w' = w" by simp
  from assms(2) obtain k where k: "k < length w" "t = w ! k" by (metis in_set_conv_nth)
  with ww e have "make_label nd (symbols_of rows) (12 + int k) = Inr (fst (snd t))" by simp
  then show ?thesis by (rule make_label_binary)
qed

lemma prepareData_labels_binary:
  assumes "prepareData rawData = Inr r"
  shows "\<forall>l\<in>set (y_train r) \<union> set (y_test r). \<forall>x\<in>set l. x = Fin 0 \<or> x = Fin 1"
proof -
  from prepareData_Inr_dates[OF assms] obtain rows where rw: "rawData = Some rows"
    and ne: "17 \<le> length (allDates_of rows)" by blast
  from prepareData_layout[OF ne] obtain r' where r: "prepareData (Some rows) = Inr r'"
    "length (y_train r' @ y_test r') = nat (int (length (allDates_of rows)) - 15)"
    "\<forall>k<nat (int (length (allDates_of rows)) - 15).
        sample_loop (processedData r') (symbols_of rows) (12 + int k) (int k)
          = Inr ((X_train r' @ X_test r') ! k) \<and>
        make_label (processedData r') (symbols_of rows) (12 + int k)
          = Inr ((y_train r' @ y_test r') ! k) \<and>
        dateIndex r' ! k = allDates_of rows ! (12 + k)" by blast
  from r(1) assms rw have e: "r' = r" by simp
  show ?thesis
  proof
    fix l assume "l \<in> set (y_train r) \<union> set (y_test r)"
    then have "l \<in> set (y_train r @ y_test r)" by simp
    then obtain k where k: "k < length (y_train r @ y_test r)" "l = (y_train r @ y_test r) ! k"
      by (metis in_set_conv_nth)
    with r(2,3) e have "make_label (processedData r) (symbols_of rows) (12 + int k) = Inr l"
      by simp
    then show "\<forall>x\<in>set l. x = Fin 0 \<or> x = Fin 1" by (rule make_label_binary)
  qed
qed

text \<open>
  C10. Whenever \<^verbatim>\<open>prepareData\<close> returns, every entry of every label vector it returns is
  0 or 1, and it returns for every table with seventeen dates or more. The same holds
  for every label vector its window loop builds, also on a table with fewer dates, where
  the tensor constructor raises afterwards, and for every label vector of
  \<^verbatim>\<open>createSequences\<close>: the comparison \<^verbatim>\<open>a > b\<close> is true or false for all operands, and
  false as soon as one of them is NaN or \<^verbatim>\<open>undefined\<close>.
\<close>

theorem labels_are_binary:
  "(prepareData rawData = Inr r \<longrightarrow>
      (\<forall>l\<in>set (y_train r) \<union> set (y_test r). \<forall>x\<in>set l. x = Fin 0 \<or> x = Fin 1)) \<and>
   (17 \<le> length (allDates_of rows) \<longrightarrow>
      (\<exists>r. prepareData (Some rows) = Inr r \<and> y_train r \<noteq> [] \<and> y_test r \<noteq> [])) \<and>
   (windows_of rows = Inr w \<longrightarrow>
      (\<forall>t\<in>set w. \<forall>x\<in>set (fst (snd t)). x = Fin 0 \<or> x = Fin 1)) \<and>
   (createSequences_labels pivot dates syms i outputLen = Some l \<longrightarrow>
      (\<forall>x\<in>set l. x = Fin 0 \<or> x = Fin 1)) \<and>
   ((if js_gt a b then Fin 1 else Fin 0) = Fin 0 \<or> (if js_gt a b then Fin 1 else Fin 0) = Fin 1) \<and>
   \<not> js_gt (Num NaN) b \<and> \<not> js_gt a (Num NaN) \<and> \<not> js_gt Undefined b \<and> \<not> js_gt a Undefined"
proof (intro conjI impI)
  assume "prepareData rawData = Inr r"
  then show "\<forall>l\<in>set (y_train r) \<union> set (y_test r). \<forall>x\<in>set l. x = Fin 0 \<or> x = Fin 1"
    by (rule prepareData_labels_binary)
next
  assume ne: "17 \<le> length (allDates_of rows)"
  obtain nd w where nw: "normalizedData_of rows = Inr nd" "windows_of rows = Inr w"
    and lw: "length w = nat (int (length (allDates_of rows)) - 15)"
    using windows_of_total[of rows] by blast
  define r where "r = \<lparr>symbols = symbols_of rows,
          dateIndex = map (snd \<circ> snd) w,
          X_train = slice_to (map fst w) (splitIndex_of (length w)),
          y_train = slice_to (map (fst \<circ> snd) w) (splitIndex_of (length w)),
          X_test = slice_from (map fst w) (splitIndex_of (length w)),
          y_test = slice_from (map (fst \<circ> snd) w) (splitIndex_of (length w)),
          featureNames = concat (map (\<lambda>symbol. [symbol @ ''_Open'', symbol @ ''_Close''])
                                     (symbols_of rows)),
          processedData = nd\<rparr>"
  have p: "prepareData (Some rows) = Inr r"
    unfolding r_def by (rule prepareData_Inr[OF ne nw])
  have "2 \<le> length w" using lw ne by simp
  then have sp: "0 < splitIndex_of (length w)" "splitIndex_of (length w) < length w"
    using splitIndex_of_pos[of "length w"] by simp_all
  have a: "y_train r \<noteq> []" using sp by (auto simp: r_def slice_to_def)
  have b: "y_test r \<noteq> []" using sp by (auto simp: r_def slice_from_def)
  show "\<exists>r. prepareData (Some rows) = Inr r \<and> y_train r \<noteq> [] \<and> y_test r \<noteq> []"
    by (intro exI[of _ r] conjI p a b)
next
  assume "windows_of rows = Inr w"
  then show "\<forall>t\<in>set w. \<forall>x\<in>set (fst (snd t)). x = Fin 0 \<or> x = Fin 1"
    using windows_of_labels_binary by blast
next
  assume "createSequences_labels pivot dates syms i outputLen = Some l"
  then have "l = future_labels pivot dates syms (date_key dates i) i outputLen 1"
    by (auto simp: createSequences_labels_def Let_def split: if_splits)
  then show "\<forall>x\<in>set l. x = Fin 0 \<or> x = Fin 1" using future_labels_binary by simp
next
  show "(if js_gt a b then Fin 1 else Fin 0) = Fin 0 \<or> (if js_gt a b then Fin 1 else Fin 0) = Fin 1"
    by simp
  show "\<not> js_gt (Num NaN) b" by (simp add: js_gt_def)
  show "\<not> js_gt a (Num NaN)" by (cases "to_number a") (simp_all add: js_gt_def)
  show "\<not> js_gt Undefined b" by (simp add: js_gt_def)
  show "\<not> js_gt a Undefined" by (cases "to_number a") (simp_all add: js_gt_def)
qed

theorem labels_are_binary_witness:
  "createSequences_labels
     (Map.empty(''d0'' \<mapsto> Map.empty(''A'' \<mapsto> \<lparr>qOpen = Fin 1, qClose = Fin 2\<rparr>),
                ''d1'' \<mapsto> Map.empty(''A'' \<mapsto> \<lparr>qOpen = Fin 1, qClose = Fin 3\<rparr>)))
     [''d0'', ''d1''] [''A''] 0 2 = Some [Fin 1, Fin 0] \<and>
   (\<exists>r. prepareData (Some rows_two) = Inr r \<and>
        y_train r = [[Fin 0, Fin 0, Fin 0, Fin 1, Fin 0, Fin 1]] \<and>
        (\<forall>l\<in>set (y_train r) \<union> set (y_test r). \<forall>x\<in>set l. x = Fin 0 \<or> x = Fin 1)) \<and>
   (\<exists>w. windows_of rows_short = Inr w \<and> map (fst \<circ> snd) w = [[Fin 1, Fin 0, Fin 1]] \<and>
        (\<forall>t\<in>set w. \<forall>x\<in>set (fst (snd t)). x = Fin 0 \<or> x = Fin 1))"
proof -
  have ne: "17 \<le> length (allDates_of rows_two)" by code_simp
  have c: "createSequences_labels
     (Map.empty(''d0'' \<mapsto> Map.empty(''A'' \<mapsto> \<lparr>qOpen = Fin 1, qClose = Fin 2\<rparr>),
                ''d1'' \<mapsto> Map.empty(''A'' \<mapsto> \<lparr>qOpen = Fin 1, qClose = Fin 3\<rparr>)))
     [''d0'', ''d1''] [''A''] 0 2 = Some [Fin 1, Fin 0]" by code_simp
  have y: "map_sum id y_train (prepareData (Some rows_two)) =
      Inr [[Fin 0, Fin 0, Fin 0, Fin 1, Fin 0, Fin 1]]" by code_simp
  have v: "map_sum id (map (fst \<circ> snd)) (windows_of rows_short) = Inr [[Fin 1, Fin 0, Fin 1]]"
    by code_simp
  from labels_are_binary[where rows = rows_two, THEN conjunct2, THEN conjunct1, rule_format,
      OF ne]
  obtain r where r: "prepareData (Some rows_two) = Inr r" by blast
  note b = labels_are_binary[where rawData = "Some rows_two" and r = r, THEN conjunct1,
      THEN mp, OF r]
  from y r have t: "y_train r = [[Fin 0, Fin 0, Fin 0, Fin 1, Fin 0, Fin 1]]" by simp
  have 1: "\<exists>r. prepareData (Some rows_two) = Inr r \<and>
        y_train r = [[Fin 0, Fin 0, Fin 0, Fin 1, Fin 0, Fin 1]] \<and>
        (\<forall>l\<in>set (y_train r) \<union> set (y_test r). \<forall>x\<in>set l. x = Fin 0 \<or> x = Fin 1)"
    by (intro exI[of _ r] conjI r t b)
  obtain w where w: "windows_of rows_short = Inr w"
    using v by (cases "windows_of rows_short") simp_all
  note d = labels_are_binary[where rows = rows_short and w = w, THEN conjunct2, THEN conjunct2,
      THEN conjunct1, THEN mp, OF w]
  from v w have m: "map (fst \<circ> snd) w = [[Fin 1, Fin 0, Fin 1]]" by simp
  have 2: "\<exists>w. windows_of rows_short = Inr w \<and> map (fst \<circ> snd) w = [[Fin 1, Fin 0, Fin 1]] \<and>
        (\<forall>t\<in>set w. \<forall>x\<in>set (fst (snd t)). x = Fin 0 \<or> x = Fin 1)"
    by (intro exI[of _ w] conjI w m d)
  from c 1 2 show ?thesis by (intro conjI)
qed

lemma label_days_example:
  assumes "num_get closes (i - 1) = Num (Fin 0.2)" "num_get closes i = Num (Fin 0.5)"
    "num_get closes (i + 1) = Num (Fin 0.1)" "num_get closes (i + 2) = Num (Fin 0.9)"
  shows "label_days closes (num_get closes (i - 1)) i 0 = [Fin 1, Fin 0, Fin 1]"
proof -
  have u: "[0..<3] = [0, 1, 2]" by (simp add: upt_rec)
  show ?thesis using assms by (simp add: label_days_eq u js_gt_def)
qed

text \<open>
  C1, as the code has it. On a table with seventeen dates or more (with fewer, the
  tensor constructor raises) \<^verbatim>\<open>prepareData\<close> returns, and for the loop position
  \<open>i = 12 + k\<close> of the \<open>k\<close>-th sample the label vector holds, for each entity in the order of \<^verbatim>\<open>symbols\<close>, three entries: entry
  \<open>d\<close> is 1 if the entity's normalized close at position \<open>i + d\<close> (\<open>d = 0, 1, 2\<close>) is
  strictly greater than its close at position \<open>i - 1\<close>, the last position of the
  lookback window, and 0 otherwise. With the closes \<open>0.2, 0.5, 0.1, 0.9\<close> at the positions
  \<open>i - 1, i, i + 1, i + 2\<close> the three entries are 1, 0, 1.
\<close>

theorem label_vector_baseline:
  "(17 \<le> length (allDates_of rows) \<longrightarrow>
      (\<exists>r. prepareData (Some rows) = Inr r \<and>
           length (y_train r @ y_test r) = nat (int (length (allDates_of rows)) - 15) \<and>
           (\<forall>k<length (y_train r @ y_test r).
              length ((y_train r @ y_test r) ! k) = 3 * length (symbols r) \<and>
              (\<forall>e<length (symbols r). \<exists>ns. processedData r (symbols r ! e) = Some ns \<and>
                 (\<forall>d<3. (y_train r @ y_test r) ! k ! (3 * e + d) =
                    (if js_gt (num_get (nClose ns) (12 + int k + int d))
                              (num_get (nClose ns) (12 + int k - 1))
                     then Fin 1 else Fin 0)))))) \<and>
   (num_get closes (i - 1) = Num (Fin 0.2) \<and> num_get closes i = Num (Fin 0.5) \<and>
    num_get closes (i + 1) = Num (Fin 0.1) \<and> num_get closes (i + 2) = Num (Fin 0.9) \<longrightarrow>
      label_days closes (num_get closes (i - 1)) i 0 = [Fin 1, Fin 0, Fin 1])"
proof (intro conjI impI)
  assume "num_get closes (i - 1) = Num (Fin 0.2) \<and> num_get closes i = Num (Fin 0.5) \<and>
    num_get closes (i + 1) = Num (Fin 0.1) \<and> num_get closes (i + 2) = Num (Fin 0.9)"
  then show "label_days closes (num_get closes (i - 1)) i 0 = [Fin 1, Fin 0, Fin 1]"
    using label_days_example[of closes i] by simp
next
  assume ne: "17 \<le> length (allDates_of rows)"
  from prepareData_layout[OF ne] obtain r where r: "prepareData (Some rows) = Inr r"
    "symbols r = symbols_of rows"
    "dom (processedData r) = set (symbols_of rows)"
    "length (y_train r @ y_test r) = nat (int (length (allDates_of rows)) - 15)"
    "\<forall>k<nat (int (length (allDates_of rows)) - 15).
        sample_loop (processedData r) (symbols_of rows) (12 + int k) (int k)
          = Inr ((X_train r @ X_test r) ! k) \<and>
        make_label (processedData r) (symbols_of rows) (12 + int k)
          = Inr ((y_train r @ y_test r) ! k) \<and>
        dateIndex r ! k = allDates_of rows ! (12 + k)" by blast
  have sub: "set (symbols_of rows) \<subseteq> dom (processedData r)" using r(3) by simp
  have "\<forall>k<length (y_train r @ y_test r).
              length ((y_train r @ y_test r) ! k) = 3 * length (symbols r) \<and>
              (\<forall>e<length (symbols r). \<exists>ns. processedData r (symbols r ! e) = Some ns \<and>
                 (\<forall>d<3. (y_train r @ y_test r) ! k ! (3 * e + d) =
                    (if js_gt (num_get (nClose ns) (12 + int k + int d))
                              (num_get (nClose ns) (12 + int k - 1))
                     then Fin 1 else Fin 0)))"
  proof (intro allI impI)
    fix k assume "k < length (y_train r @ y_test r)"
    with r(4,5) have "make_label (processedData r) (symbols_of rows) (12 + int k)
          = Inr ((y_train r @ y_test r) ! k)" by simp
    from make_label_layout[OF sub this, folded r(2)]
    show "length ((y_train r @ y_test r) ! k) = 3 * length (symbols r) \<and>
              (\<forall>e<length (symbols r). \<exists>ns. processedData r (symbols r ! e) = Some ns \<and>
                 (\<forall>d<3. (y_train r @ y_test r) ! k ! (3 * e + d) =
                    (if js_gt (num_get (nClose ns) (12 + int k + int d))
                              (num_get (nClose ns) (12 + int k - 1))
                     then Fin 1 else Fin 0)))" .
  qed
  with r(1) r(4) show "\<exists>r. prepareData (Some rows) = Inr r \<and>
           length (y_train r @ y_test r) = nat (int (length (allDates_of rows)) - 15) \<and>
           (\<forall>k<length (y_train r @ y_test r).
              length ((y_train r @ y_test r) ! k) = 3 * length (symbols r) \<and>
              (\<forall>e<length (symbols r). \<exists>ns. processedData r (symbols r ! e) = Some ns \<and>
                 (\<forall>d<3. (y_train r @ y_test r) ! k ! (3 * e + d) =
                    (if js_gt (num_get (nClose ns) (12 + int k + int d))
                              (num_get (nClose ns) (12 + int k - 1))
                     then Fin 1 else Fin 0))))"
    by (intro exI[of _ r] conjI)
qed

theorem label_vector_baseline_witness:
  "label_days [Fin 0.2, Fin 0.5, Fin 0.1, Fin 0.9] (Num (Fin 0.2)) 1 0 = [Fin 1, Fin 0, Fin 1] \<and>
   (\<exists>r ns. prepareData (Some rows_label) = Inr r \<and> length (y_train r @ y_test r) = 2 \<and>
      symbols r = [''S''] \<and> processedData r ''S'' = Some ns \<and>
      (y_train r @ y_test r) ! 0 ! 0 =
        (if js_gt (num_get (nClose ns) 12) (num_get (nClose ns) 11) then Fin 1 else Fin 0))"
proof -
  let ?c = "[Fin 0.2, Fin 0.5, Fin 0.1, Fin 0.9]"
  have ne: "17 \<le> length (allDates_of rows_label)" by code_simp
  have D: "length (allDates_of rows_label) = 17" by code_simp
  have S: "map_sum id symbols (prepareData (Some rows_label)) = Inr [''S'']" by code_simp
  have g: "num_get ?c (1 - 1) = Num (Fin 0.2) \<and> num_get ?c 1 = Num (Fin 0.5) \<and>
    num_get ?c (1 + 1) = Num (Fin 0.1) \<and> num_get ?c (1 + 2) = Num (Fin 0.9)"
    by (simp add: num_get_def)
  have a: "label_days ?c (Num (Fin 0.2)) 1 0 = [Fin 1, Fin 0, Fin 1]"
    using label_vector_baseline[of "[]" ?c 1, THEN conjunct2, rule_format, OF g] g by simp
  from label_vector_baseline[of rows_label, THEN conjunct1, rule_format, OF ne] obtain r where r:
    "prepareData (Some rows_label) = Inr r"
    "length (y_train r @ y_test r) = nat (int (length (allDates_of rows_label)) - 15)"
    "\<forall>k<length (y_train r @ y_test r).
              length ((y_train r @ y_test r) ! k) = 3 * length (symbols r) \<and>
              (\<forall>e<length (symbols r). \<exists>ns. processedData r (symbols r ! e) = Some ns \<and>
                 (\<forall>d<3. (y_train r @ y_test r) ! k ! (3 * e + d) =
                    (if js_gt (num_get (nClose ns) (12 + int k + int d))
                              (num_get (nClose ns) (12 + int k - 1))
                     then Fin 1 else Fin 0)))" by blast
  have l: "length (y_train r @ y_test r) = 2" using r(2) by (simp add: D)
  have s: "symbols r = [''S'']" using S r(1) by simp
  have k0: "0 < length (y_train r @ y_test r)" using l by simp
  have e0: "0 < length (symbols r)" using s by simp
  from r(3)[rule_format, OF k0, THEN conjunct2, rule_format, OF e0]
  obtain ns where ns: "processedData r (symbols r ! 0) = Some ns"
     "\<forall>d<3. (y_train r @ y_test r) ! 0 ! (3 * 0 + d) =
                    (if js_gt (num_get (nClose ns) (12 + int 0 + int d))
                              (num_get (nClose ns) (12 + int 0 - 1))
                     then Fin 1 else Fin 0)" by blast
  have n1: "processedData r ''S'' = Some ns" using ns(1) s by simp
  from ns(2)[rule_format, of 0] have n2: "(y_train r @ y_test r) ! 0 ! 0 =
        (if js_gt (num_get (nClose ns) 12) (num_get (nClose ns) 11) then Fin 1 else Fin 0)"
    by simp
  from r(1) l s n1 n2 a show ?thesis by blast
qed

text \<open>
  C1 at one table. The scaled closes of \<^verbatim>\<open>S\<close> at the positions 11 to 14 are
  \<open>0.2, 0.5, 0.1, 0.9\<close>; the first window has its position \<open>i = 12\<close> (its date is
  2024-01-17). The code's label vector there is 1, 0, 1; a baseline at position 12 and the
  three positions after it give 0, 1, 0.
\<close>

theorem label_baseline_counterexample:
  "map_sum id
     (\<lambda>r. (dateIndex r,
           map_option (\<lambda>ns. map (num_get (nClose ns)) [11, 12, 13, 14]) (processedData r ''S''),
           y_train r,
           claimed_label (processedData r) (symbols r) 12))
     (prepareData (Some rows_label)) =
   Inr ([''2024-01-17'', ''2024-01-18''],
        Some [Num (Fin 0.2), Num (Fin 0.5), Num (Fin 0.1), Num (Fin 0.9)],
        [[Fin 1, Fin 0, Fin 1]],
        [Fin 0, Fin 1, Fin 0])"
  by code_simp

section \<open>Holes and windows\<close>

lemma normalize_symbols_lookup:
  "normalize_symbols ss pd nd0 = Inr nd \<Longrightarrow>
   (\<forall>s\<in>set ss. \<exists>v. pd s = Some v \<and>
        nd s = Some \<lparr>nOpen = normalize_field (pOpen v), nClose = normalize_field (pClose v)\<rparr>) \<and>
   (\<forall>s. s \<notin> set ss \<longrightarrow> nd s = nd0 s)"
proof (induction ss arbitrary: nd0)
  case Nil
  then show ?case by simp
next
  case (Cons a ss)
  from Cons.prems obtain v where v: "pd a = Some v"
    by (auto split: option.splits)
  define nd1 where "nd1 = nd0(a \<mapsto> \<lparr>nOpen = normalize_field (pOpen v), nClose = normalize_field (pClose v)\<rparr>)"
  from Cons.prems v have "normalize_symbols ss pd nd1 = Inr nd" by (simp add: nd1_def)
  from Cons.IH[OF this] have ih:
    "\<forall>s\<in>set ss. \<exists>v. pd s = Some v \<and>
        nd s = Some \<lparr>nOpen = normalize_field (pOpen v), nClose = normalize_field (pClose v)\<rparr>"
    "\<forall>s. s \<notin> set ss \<longrightarrow> nd s = nd1 s" by simp_all
  have here: "\<exists>v. pd a = Some v \<and>
        nd a = Some \<lparr>nOpen = normalize_field (pOpen v), nClose = normalize_field (pClose v)\<rparr>"
  proof (cases "a \<in> set ss")
    case True
    with ih(1) show ?thesis by blast
  next
    case False
    with ih(2) have "nd a = nd1 a" by blast
    with v show ?thesis by (simp add: nd1_def)
  qed
  have others: "\<forall>s. s \<notin> set (a # ss) \<longrightarrow> nd s = nd0 s"
    using ih(2) by (simp add: nd1_def)
  from ih(1) here others show ?case by simp
qed

lemma normalize_field_hole:
  "j < length arr \<Longrightarrow> arr ! j = Null \<Longrightarrow> normalize_field arr ! j = Fin 0"
  by (simp add: normalize_field_def Let_def)

lemma length_normalize_field: "length (normalize_field arr) = length arr"
  by (simp add: normalize_field_def Let_def)

lemma createSequences_labels_skip:
  "symbol \<in> set syms \<Longrightarrow> loose_null (close_at pivot (date_key dates i) symbol) \<Longrightarrow>
   createSequences_labels pivot dates syms i outputLen = None"
  by (auto simp: createSequences_labels_def Let_def list_all_iff)

text \<open>
  C3, as the code has it. \<^verbatim>\<open>prepareData\<close> excludes no window: a table with seventeen
  dates or more gives one sample and one label vector for every position \<open>i\<close> with
  \<open>12 \<le> i \<le> length - 4\<close>, holes or not. A value that is still a hole after the
  forward fill is normalized to 0, and the windows read the normalized series: the
  \<open>k\<close>-th sample holds, at step \<open>t\<close> and for the entity at index \<open>e\<close>, the normalized
  open and close of position \<open>k + t\<close>. In \<^verbatim>\<open>createSequences\<close>, a position at which some
  entity has no close gives no sample. The window loop of \<^verbatim>\<open>prepareData\<close> builds its
  \<open>length - 15\<close> windows on every table; with fewer than seventeen dates the tensor
  constructor raises afterwards, and nothing is returned.
\<close>

theorem no_window_excluded:
  "(17 \<le> length (allDates_of rows) \<longrightarrow>
      (\<exists>r filled.
         prepareData (Some rows) = Inr r \<and> filled_of rows = Inr filled \<and>
         length (X_train r @ X_test r) = nat (int (length (allDates_of rows)) - 15) \<and>
         length (y_train r @ y_test r) = nat (int (length (allDates_of rows)) - 15) \<and>
         (\<forall>symbol\<in>set (symbols r). \<exists>s. filled symbol = Some s \<and>
            processedData r symbol =
              Some \<lparr>nOpen = normalize_field (pOpen s), nClose = normalize_field (pClose s)\<rparr>) \<and>
         (\<forall>k<length (X_train r @ X_test r).
            length ((X_train r @ X_test r) ! k) = 12 \<and>
            (\<forall>t<12. length ((X_train r @ X_test r) ! k ! t) = 2 * length (symbols r) \<and>
               (\<forall>e<length (symbols r). \<exists>ns. processedData r (symbols r ! e) = Some ns \<and>
                  (X_train r @ X_test r) ! k ! t ! (2 * e) = num_get (nOpen ns) (int k + int t) \<and>
                  (X_train r @ X_test r) ! k ! t ! (2 * e + 1) = num_get (nClose ns) (int k + int t)))))) \<and>
   (j < length arr \<longrightarrow> arr ! j = Null \<longrightarrow> normalize_field arr ! j = Fin 0) \<and>
   (symbol \<in> set syms \<longrightarrow> loose_null (close_at pivot (date_key dates i) symbol) \<longrightarrow>
      createSequences_labels pivot dates syms i outputLen = None) \<and>
   (\<exists>w. windows_of rows = Inr w \<and> length w = nat (int (length (allDates_of rows)) - 15)) \<and>
   (rows \<noteq> [] \<longrightarrow> length (allDates_of rows) < 17 \<longrightarrow>
      prepareData (Some rows) = Inl TensorError)"
proof (intro conjI impI)
  assume "j < length arr" "arr ! j = Null"
  then show "normalize_field arr ! j = Fin 0" by (rule normalize_field_hole)
next
  assume "rows \<noteq> []" "length (allDates_of rows) < 17"
  then show "prepareData (Some rows) = Inl TensorError" by (rule prepareData_raises)
next
  obtain w where "windows_of rows = Inr w"
    "length w = nat (int (length (allDates_of rows)) - 15)"
    using windows_of_total[of rows] by blast
  then show "\<exists>w. windows_of rows = Inr w \<and>
      length w = nat (int (length (allDates_of rows)) - 15)"
    by (intro exI[of _ w] conjI)
next
  assume "symbol \<in> set syms" "loose_null (close_at pivot (date_key dates i) symbol)"
  then show "createSequences_labels pivot dates syms i outputLen = None"
    by (rule createSequences_labels_skip)
next
  assume ne: "17 \<le> length (allDates_of rows)"
  from prepareData_layout[OF ne] obtain r where r: "prepareData (Some rows) = Inr r"
    "symbols r = symbols_of rows"
    "normalizedData_of rows = Inr (processedData r)"
    "dom (processedData r) = set (symbols_of rows)"
    "length (X_train r @ X_test r) = nat (int (length (allDates_of rows)) - 15)"
    "length (y_train r @ y_test r) = nat (int (length (allDates_of rows)) - 15)"
    "\<forall>k<nat (int (length (allDates_of rows)) - 15).
        sample_loop (processedData r) (symbols_of rows) (12 + int k) (int k)
          = Inr ((X_train r @ X_test r) ! k) \<and>
        make_label (processedData r) (symbols_of rows) (12 + int k)
          = Inr ((y_train r @ y_test r) ! k) \<and>
        dateIndex r ! k = allDates_of rows ! (12 + k)" by blast
  obtain filled where f: "filled_of rows = Inr filled"
    using filled_of_total[of rows] by blast
  with r(3) have n: "normalize_symbols (symbols_of rows) filled Map.empty = Inr (processedData r)"
    by (simp add: normalizedData_of_def)
  have a: "\<forall>symbol\<in>set (symbols r). \<exists>s. filled symbol = Some s \<and>
            processedData r symbol =
              Some \<lparr>nOpen = normalize_field (pOpen s), nClose = normalize_field (pClose s)\<rparr>"
    using normalize_symbols_lookup[OF n] unfolding r(2) by blast
  have sub: "set (symbols_of rows) \<subseteq> dom (processedData r)" using r(4) by simp
  have b: "\<forall>k<length (X_train r @ X_test r).
            length ((X_train r @ X_test r) ! k) = 12 \<and>
            (\<forall>t<12. length ((X_train r @ X_test r) ! k ! t) = 2 * length (symbols r) \<and>
               (\<forall>e<length (symbols r). \<exists>ns. processedData r (symbols r ! e) = Some ns \<and>
                  (X_train r @ X_test r) ! k ! t ! (2 * e) = num_get (nOpen ns) (int k + int t) \<and>
                  (X_train r @ X_test r) ! k ! t ! (2 * e + 1) = num_get (nClose ns) (int k + int t)))"
  proof (intro allI impI)
    fix k assume "k < length (X_train r @ X_test r)"
    with r(5,7) have "sample_loop (processedData r) (symbols_of rows) (12 + int k) (int k)
          = Inr ((X_train r @ X_test r) ! k)" by simp
    from sample_loop_layout[OF sub this, folded r(2)]
    show "length ((X_train r @ X_test r) ! k) = 12 \<and>
            (\<forall>t<12. length ((X_train r @ X_test r) ! k ! t) = 2 * length (symbols r) \<and>
               (\<forall>e<length (symbols r). \<exists>ns. processedData r (symbols r ! e) = Some ns \<and>
                  (X_train r @ X_test r) ! k ! t ! (2 * e) = num_get (nOpen ns) (int k + int t) \<and>
                  (X_train r @ X_test r) ! k ! t ! (2 * e + 1) = num_get (nClose ns) (int k + int t)))" .
  qed
  show "\<exists>r filled.
         prepareData (Some rows) = Inr r \<and> filled_of rows = Inr filled \<and>
         length (X_train r @ X_test r) = nat (int (length (allDates_of rows)) - 15) \<and>
         length (y_train r @ y_test r) = nat (int (length (allDates_of rows)) - 15) \<and>
         (\<forall>symbol\<in>set (symbols r). \<exists>s. filled symbol = Some s \<and>
            processedData r symbol =
              Some \<lparr>nOpen = normalize_field (pOpen s), nClose = normalize_field (pClose s)\<rparr>) \<and>
         (\<forall>k<length (X_train r @ X_test r).
            length ((X_train r @ X_test r) ! k) = 12 \<and>
            (\<forall>t<12. length ((X_train r @ X_test r) ! k ! t) = 2 * length (symbols r) \<and>
               (\<forall>e<length (symbols r). \<exists>ns. processedData r (symbols r ! e) = Some ns \<and>
                  (X_train r @ X_test r) ! k ! t ! (2 * e) = num_get (nOpen ns) (int k + int t) \<and>
                  (X_train r @ X_test r) ! k ! t ! (2 * e + 1) = num_get (nClose ns) (int k + int t))))"
    by (intro exI[of _ r] exI[of _ filled] conjI r(1) f r(5) r(6) a b)
qed

theorem no_window_excluded_witness:
  "normalize_field [Null, Num (Fin 4), Num (Fin 2)] ! 0 = Fin 0 \<and>
   createSequences_labels Map.empty [''d0'', ''d1''] [''A''] 0 1 = None \<and>
   (\<exists>r filled s. prepareData (Some rows_hole) = Inr r \<and> filled_of rows_hole = Inr filled \<and>
      length (X_train r @ X_test r) = 2 \<and> length (y_train r @ y_test r) = 2 \<and>
      filled ''A'' = Some s \<and> pOpen s ! 0 = Null \<and>
      processedData r ''A'' =
        Some \<lparr>nOpen = normalize_field (pOpen s), nClose = normalize_field (pClose s)\<rparr>) \<and>
   prepareData (Some (take 16 rows_hole)) = Inl TensorError"
proof -
  have ne: "17 \<le> length (allDates_of rows_hole)" by code_simp
  have sh: "take 16 rows_hole \<noteq> []" by code_simp
  have sd: "length (allDates_of (take 16 rows_hole)) < 17" by code_simp
  note u = no_window_excluded[of "take 16 rows_hole" 0 "[]" "''A''" "[]" Map.empty "[]" 0 0,
      THEN conjunct2, THEN conjunct2, THEN conjunct2, THEN conjunct2, rule_format, OF sh sd]
  have D: "length (allDates_of rows_hole) = 17" by code_simp
  have S: "map_sum id symbols (prepareData (Some rows_hole)) = Inr [''A'']" by code_simp
  have F: "map_sum id (\<lambda>f. map_option (\<lambda>s. pOpen s ! 0) (f ''A'')) (filled_of rows_hole) = Inr (Some Null)"
    by code_simp
  have a: "normalize_field [Null, Num (Fin 4), Num (Fin 2)] ! 0 = Fin 0"
    using no_window_excluded[of "[]" 0 "[Null, Num (Fin 4), Num (Fin 2)]", THEN conjunct2, THEN conjunct1]
    by simp
  have ln: "loose_null (close_at Map.empty (date_key [''d0'', ''d1''] 0) ''A'')"
    by (simp add: loose_null_def close_at_def)
  have b: "createSequences_labels Map.empty [''d0'', ''d1''] [''A''] 0 1 = None"
    using no_window_excluded[of "[]" 0 "[]" "''A''" "[''A'']" Map.empty "[''d0'', ''d1'']" 0 1,
        THEN conjunct2, THEN conjunct2, THEN conjunct1] ln by simp
  from no_window_excluded[of rows_hole, THEN conjunct1, rule_format, OF ne]
  obtain r filled where r: "prepareData (Some rows_hole) = Inr r" "filled_of rows_hole = Inr filled"
    "length (X_train r @ X_test r) = nat (int (length (allDates_of rows_hole)) - 15)"
    "length (y_train r @ y_test r) = nat (int (length (allDates_of rows_hole)) - 15)"
    "\<forall>symbol\<in>set (symbols r). \<exists>s. filled symbol = Some s \<and>
            processedData r symbol =
              Some \<lparr>nOpen = normalize_field (pOpen s), nClose = normalize_field (pClose s)\<rparr>"
    by blast
  have s: "symbols r = [''A'']" using S r(1) by simp
  from r(5) s obtain sr where sr: "filled ''A'' = Some sr"
    "processedData r ''A'' =
       Some \<lparr>nOpen = normalize_field (pOpen sr), nClose = normalize_field (pClose sr)\<rparr>" by auto
  have h: "pOpen sr ! 0 = Null" using F r(2) sr(1) by simp
  have l: "length (X_train r @ X_test r) = 2" "length (y_train r @ y_test r) = 2"
    using r(3,4) by (simp_all add: D)
  have "\<exists>r filled s. prepareData (Some rows_hole) = Inr r \<and> filled_of rows_hole = Inr filled \<and>
      length (X_train r @ X_test r) = 2 \<and> length (y_train r @ y_test r) = 2 \<and>
      filled ''A'' = Some s \<and> pOpen s ! 0 = Null \<and>
      processedData r ''A'' =
        Some \<lparr>nOpen = normalize_field (pOpen s), nClose = normalize_field (pClose s)\<rparr>"
    by (intro exI[of _ r] exI[of _ filled] exI[of _ sr] conjI r(1) r(2) l sr h)
  with a b u show ?thesis by (intro conjI)
qed

text \<open>
  C3 at one table: the first row of \<^verbatim>\<open>A\<close> has no \<^verbatim>\<open>Open\<close>. After the forward fill the
  open at position 0 is still a hole. The window of position 12 covers the positions 0 to
  11, and it is emitted: two samples, the first one in the training part, its first step
  holding 0 for the missing open (and 1 for the close, the largest of the series).
\<close>

theorem hole_window_kept:
  "map_sum id (\<lambda>f. map_option (\<lambda>s. pOpen s ! 0) (f ''A'')) (filled_of rows_hole) = Inr (Some Null) \<and>
   map_sum id (\<lambda>r. (dateIndex r, length (X_train r), length (X_test r), X_train r ! 0 ! 0))
     (prepareData (Some rows_hole)) =
   Inr ([''2024-01-17'', ''2024-01-18''], 1, 1, [Num (Fin 0), Num (Fin 1)])"
  by code_simp

section \<open>The order of the entities, and the normalization\<close>

lemma symbols_of_Cons:
  "symbols_of (x # xs) = Symbol x # symbols_of (filter (\<lambda>y. Symbol y \<noteq> Symbol x) xs)"
proof -
  have "filter (\<lambda>s. s \<noteq> Symbol x) (map Symbol xs) =
        map Symbol (filter (\<lambda>y. Symbol y \<noteq> Symbol x) xs)"
    by (simp add: filter_map comp_def)
  then show ?thesis
    using new_Set_Cons[of "Symbol x" "map Symbol xs"] by (simp add: symbols_of_def)
qed

text \<open>
  C9, as the code has it. On a table with seventeen dates or more (with fewer, the
  tensor constructor raises) \<^verbatim>\<open>prepareData\<close> returns, and its entity sequence holds every
  symbol of the table once, in the order of first appearance in the rows: the symbol of the first
  row, then the sequence of the remaining rows with another symbol. It is not sorted. It
  is the column order of every sample (entity \<open>e\<close> at the columns \<open>2e\<close> and \<open>2e + 1\<close> of
  every step) and of every label vector (entity \<open>e\<close> at the entries \<open>3e\<close> to \<open>3e + 2\<close>).
  \<^verbatim>\<open>parseAndPivot\<close> of the second loader does sort its symbols.
\<close>

theorem entity_order:
  "(17 \<le> length (allDates_of rows) \<longrightarrow>
      (\<exists>r. prepareData (Some rows) = Inr r \<and>
           symbols r = symbols_of rows \<and> distinct (symbols r) \<and>
           set (symbols r) = Symbol ` set rows \<and>
           (\<forall>k<length (X_train r @ X_test r). \<forall>t<12.
              length ((X_train r @ X_test r) ! k ! t) = 2 * length (symbols r) \<and>
              (\<forall>e<length (symbols r). \<exists>ns. processedData r (symbols r ! e) = Some ns \<and>
                 (X_train r @ X_test r) ! k ! t ! (2 * e) = num_get (nOpen ns) (int k + int t) \<and>
                 (X_train r @ X_test r) ! k ! t ! (2 * e + 1) = num_get (nClose ns) (int k + int t))) \<and>
           (\<forall>k<length (y_train r @ y_test r).
              length ((y_train r @ y_test r) ! k) = 3 * length (symbols r) \<and>
              (\<forall>e<length (symbols r). \<exists>ns. processedData r (symbols r ! e) = Some ns \<and>
                 (\<forall>d<3. (y_train r @ y_test r) ! k ! (3 * e + d) =
                    (if js_gt (num_get (nClose ns) (12 + int k + int d))
                              (num_get (nClose ns) (12 + int k - 1))
                     then Fin 1 else Fin 0)))))) \<and>
   symbols_of [] = [] \<and>
   symbols_of (x # xs) = Symbol x # symbols_of (filter (\<lambda>y. Symbol y \<noteq> Symbol x) xs) \<and>
   sorted (parseAndPivot_symbols column) \<and> distinct (parseAndPivot_symbols column) \<and>
   set (parseAndPivot_symbols column) = set column"
proof (intro conjI impI)
  show "symbols_of [] = []" by (simp add: symbols_of_def new_Set_def)
  show "symbols_of (x # xs) = Symbol x # symbols_of (filter (\<lambda>y. Symbol y \<noteq> Symbol x) xs)"
    by (rule symbols_of_Cons)
  show "sorted (parseAndPivot_symbols column)" by (simp add: parseAndPivot_symbols_def)
  show "distinct (parseAndPivot_symbols column)"
    by (simp add: parseAndPivot_symbols_def distinct_new_Set)
  show "set (parseAndPivot_symbols column) = set column"
    by (simp add: parseAndPivot_symbols_def set_new_Set)
next
  assume ne: "17 \<le> length (allDates_of rows)"
  from prepareData_layout[OF ne] obtain r where r: "prepareData (Some rows) = Inr r"
    "symbols r = symbols_of rows"
    "dom (processedData r) = set (symbols_of rows)"
    "length (X_train r @ X_test r) = nat (int (length (allDates_of rows)) - 15)"
    "length (y_train r @ y_test r) = nat (int (length (allDates_of rows)) - 15)"
    "\<forall>k<nat (int (length (allDates_of rows)) - 15).
        sample_loop (processedData r) (symbols_of rows) (12 + int k) (int k)
          = Inr ((X_train r @ X_test r) ! k) \<and>
        make_label (processedData r) (symbols_of rows) (12 + int k)
          = Inr ((y_train r @ y_test r) ! k) \<and>
        dateIndex r ! k = allDates_of rows ! (12 + k)" by blast
  have sub: "set (symbols_of rows) \<subseteq> dom (processedData r)" using r(3) by simp
  have d: "distinct (symbols r)" by (simp add: r(2) symbols_of_def distinct_new_Set)
  have s: "set (symbols r) = Symbol ` set rows" by (simp add: r(2) symbols_of_def set_new_Set)
  have a: "\<forall>k<length (X_train r @ X_test r). \<forall>t<12.
              length ((X_train r @ X_test r) ! k ! t) = 2 * length (symbols r) \<and>
              (\<forall>e<length (symbols r). \<exists>ns. processedData r (symbols r ! e) = Some ns \<and>
                 (X_train r @ X_test r) ! k ! t ! (2 * e) = num_get (nOpen ns) (int k + int t) \<and>
                 (X_train r @ X_test r) ! k ! t ! (2 * e + 1) = num_get (nClose ns) (int k + int t))"
  proof (intro allI impI)
    fix k t :: nat assume "k < length (X_train r @ X_test r)" and t: "t < 12"
    with r(4,6) have "sample_loop (processedData r) (symbols_of rows) (12 + int k) (int k)
          = Inr ((X_train r @ X_test r) ! k)" by simp
    from sample_loop_layout[OF sub this, folded r(2), THEN conjunct2, rule_format, OF t]
    show "length ((X_train r @ X_test r) ! k ! t) = 2 * length (symbols r) \<and>
              (\<forall>e<length (symbols r). \<exists>ns. processedData r (symbols r ! e) = Some ns \<and>
                 (X_train r @ X_test r) ! k ! t ! (2 * e) = num_get (nOpen ns) (int k + int t) \<and>
                 (X_train r @ X_test r) ! k ! t ! (2 * e + 1) = num_get (nClose ns) (int k + int t))"
      by blast
  qed
  have b: "\<forall>k<length (y_train r @ y_test r).
              length ((y_train r @ y_test r) ! k) = 3 * length (symbols r) \<and>
              (\<forall>e<length (symbols r). \<exists>ns. processedData r (symbols r ! e) = Some ns \<and>
                 (\<forall>d<3. (y_train r @ y_test r) ! k ! (3 * e + d) =
                    (if js_gt (num_get (nClose ns) (12 + int k + int d))
                              (num_get (nClose ns) (12 + int k - 1))
                     then Fin 1 else Fin 0)))"
  proof (intro allI impI)
    fix k assume "k < length (y_train r @ y_test r)"
    with r(5,6) have "make_label (processedData r) (symbols_of rows) (12 + int k)
          = Inr ((y_train r @ y_test r) ! k)" by simp
    from make_label_layout[OF sub this, folded r(2)]
    show "length ((y_train r @ y_test r) ! k) = 3 * length (symbols r) \<and>
              (\<forall>e<length (symbols r). \<exists>ns. processedData r (symbols r ! e) = Some ns \<and>
                 (\<forall>d<3. (y_train r @ y_test r) ! k ! (3 * e + d) =
                    (if js_gt (num_get (nClose ns) (12 + int k + int d))
                              (num_get (nClose ns) (12 + int k - 1))
                     then Fin 1 else Fin 0)))" .
  qed
  show "\<exists>r. prepareData (Some rows) = Inr r \<and>
           symbols r = symbols_of rows \<and> distinct (symbols r) \<and>
           set (symbols r) = Symbol ` set rows \<and>
           (\<forall>k<length (X_train r @ X_test r). \<forall>t<12.
              length ((X_train r @ X_test r) ! k ! t) = 2 * length (symbols r) \<and>
              (\<forall>e<length (symbols r). \<exists>ns. processedData r (symbols r ! e) = Some ns \<and>
                 (X_train r @ X_test r) ! k ! t ! (2 * e) = num_get (nOpen ns) (int k + int t) \<and>
                 (X_train r @ X_test r) ! k ! t ! (2 * e + 1) = num_get (nClose ns) (int k + int t))) \<and>
           (\<forall>k<length (y_train r @ y_test r).
              length ((y_train r @ y_test r) ! k) = 3 * length (symbols r) \<and>
              (\<forall>e<length (symbols r). \<exists>ns. processedData r (symbols r ! e) = Some ns \<and>
                 (\<forall>d<3. (y_train r @ y_test r) ! k ! (3 * e + d) =
                    (if js_gt (num_get (nClose ns) (12 + int k + int d))
                              (num_get (nClose ns) (12 + int k - 1))
                     then Fin 1 else Fin 0))))"
    by (intro exI[of _ r] conjI r(1) r(2) d s a b)
qed

theorem entity_order_witness:
  "symbols_of rows_two = [''MSFT'', ''AAPL''] \<and>
   parseAndPivot_symbols [''MSFT'', ''AAPL'', ''MSFT''] = [''AAPL'', ''MSFT''] \<and>
   (\<exists>r. prepareData (Some rows_two) = Inr r \<and> symbols r = [''MSFT'', ''AAPL''] \<and>
        length (X_train r @ X_test r) = 2 \<and>
        length ((X_train r @ X_test r) ! 0 ! 0) = 4 \<and>
        length ((y_train r @ y_test r) ! 0) = 6)"
proof -
  have ne: "17 \<le> length (allDates_of rows_two)" by code_simp
  have S: "symbols_of rows_two = [''MSFT'', ''AAPL'']" by code_simp
  have P: "parseAndPivot_symbols [''MSFT'', ''AAPL'', ''MSFT''] = [''AAPL'', ''MSFT'']" by code_simp
  have L: "map_sum id (\<lambda>r. (length (X_train r @ X_test r), length (y_train r @ y_test r)))
             (prepareData (Some rows_two)) = Inr (2, 2)" by code_simp
  from entity_order[of rows_two, THEN conjunct1, rule_format, OF ne] obtain r where r:
    "prepareData (Some rows_two) = Inr r" "symbols r = symbols_of rows_two"
    "\<forall>k<length (X_train r @ X_test r). \<forall>t<12.
              length ((X_train r @ X_test r) ! k ! t) = 2 * length (symbols r) \<and>
              (\<forall>e<length (symbols r). \<exists>ns. processedData r (symbols r ! e) = Some ns \<and>
                 (X_train r @ X_test r) ! k ! t ! (2 * e) = num_get (nOpen ns) (int k + int t) \<and>
                 (X_train r @ X_test r) ! k ! t ! (2 * e + 1) = num_get (nClose ns) (int k + int t))"
    "\<forall>k<length (y_train r @ y_test r).
              length ((y_train r @ y_test r) ! k) = 3 * length (symbols r) \<and>
              (\<forall>e<length (symbols r). \<exists>ns. processedData r (symbols r ! e) = Some ns \<and>
                 (\<forall>d<3. (y_train r @ y_test r) ! k ! (3 * e + d) =
                    (if js_gt (num_get (nClose ns) (12 + int k + int d))
                              (num_get (nClose ns) (12 + int k - 1))
                     then Fin 1 else Fin 0)))"
    by blast
  have s: "symbols r = [''MSFT'', ''AAPL'']" using r(2) S by simp
  have l: "length (X_train r @ X_test r) = 2" "length (y_train r @ y_test r) = 2"
    using L r(1) by simp_all
  have kx: "0 < length (X_train r @ X_test r)" and ky: "0 < length (y_train r @ y_test r)"
    using l by simp_all
  have t0: "(0::nat) < 12" by simp
  from r(3)[rule_format, OF kx t0, THEN conjunct1]
  have x: "length ((X_train r @ X_test r) ! 0 ! 0) = 4" by (simp add: s)
  from r(4)[rule_format, OF ky, THEN conjunct1]
  have y: "length ((y_train r @ y_test r) ! 0) = 6" by (simp add: s)
  from S P r(1) s l(1) x y show ?thesis by blast
qed

text \<open>
  C9 at one table: the rows of \<^verbatim>\<open>MSFT\<close> come before those of \<^verbatim>\<open>AAPL\<close>, and so do the
  symbols of \<^verbatim>\<open>prepareData\<close>, which is not the ascending order.
\<close>

theorem symbols_not_sorted:
  "map_sum id symbols (prepareData (Some rows_two)) = Inr [''MSFT'', ''AAPL''] \<and>
   \<not> sorted [''MSFT'', ''AAPL''] \<and>
   sort [''MSFT'', ''AAPL''] = [''AAPL'', ''MSFT'']"
  by code_simp

lemma foldl_num_min_const:
  "\<forall>v\<in>set vs. v = Num (Fin c) \<Longrightarrow> foldl num_min (Fin c) (map to_number vs) = Fin c"
  by (induction vs) simp_all

lemma foldl_num_max_const:
  "\<forall>v\<in>set vs. v = Num (Fin c) \<Longrightarrow> foldl num_max (Fin c) (map to_number vs) = Fin c"
  by (induction vs) simp_all

lemma normalize_field_constant:
  assumes "arr \<noteq> []" "\<forall>v\<in>set arr. v = Num (Fin c)"
  shows "normalize_field arr = replicate (length arr) NaN"
proof -
  from assms obtain vs where arr: "arr = Num (Fin c) # vs" and vs: "\<forall>v\<in>set vs. v = Num (Fin c)"
    by (cases arr) auto
  have f: "filter (\<lambda>val. val \<noteq> Null) arr = arr" using assms(2) by (auto intro: filter_True)
  have mn: "math_min arr = Fin c"
    using foldl_num_min_const[OF vs] by (simp add: math_min_def arr)
  have mx: "math_max arr = Fin c"
    using foldl_num_max_const[OF vs] by (simp add: math_max_def arr)
  have "normalize_field arr =
      map (\<lambda>val. if val \<noteq> Null
                  then num_div (num_sub (to_number val) (Fin c)) (num_sub (Fin c) (Fin c))
                  else Fin 0) arr"
    by (simp only: normalize_field_def Let_def f mn mx)
  also have "\<dots> = map (\<lambda>val. NaN) arr"
    using assms(2) by (intro map_cong) auto
  also have "\<dots> = replicate (length arr) NaN" by (simp add: map_replicate_const)
  finally show ?thesis .
qed


lemma norm_guard:
  "norm val mn mx = (if num_eq mx mn then Fin 0 else num_div (num_sub val mn) (num_sub mx mn))"
  by (simp add: norm_def)

lemma norm_constant: "norm (Fin v) (Fin c) (Fin c) = Fin 0"
  by (simp add: norm_def)

text \<open>
  C4. \<^verbatim>\<open>norm\<close> of the second loader returns 0 when the maximum equals the minimum.
  \<^verbatim>\<open>prepareData\<close> divides without that test: for the table whose close is 5 on all
  seventeen days, every normalized close is \<open>0 / 0\<close>, that is NaN, not 0.
\<close>

theorem constant_series_gives_NaN:
  "map_sum id (\<lambda>r. map_option nClose (processedData r ''A'')) (prepareData (Some rows_flat)) =
     Inr (Some (replicate 17 NaN)) \<and>
   normalize_field [Num (Fin 5), Num (Fin 5), Num (Fin 5)] = [NaN, NaN, NaN] \<and>
   norm (Fin 5) (Fin 5) (Fin 5) = Fin 0"
  by code_simp

end
